theory Spec2Isabelle
  imports Complex_Main "HOL-Library.Word" "HOL-Library.Char_ord" "HOL-Library.List_Lexorder"
    "HOL-Library.Multiset"
begin

section \<open>Conversion of a URDF hand description to Simox XML\<close>

text \<open>
  A shallow embedding of \<^verbatim>\<open>urdf_to_simox_xml.cpp\<close>. Each member function of the class
  \<^verbatim>\<open>UrdfToSimoxXml\<close> is a HOL function of the same name. The property tree that the
  source builds by mutation is passed in and returned; the process state the source
  changes (subprocesses, directories, the written file) is an explicit record; every
  \<^verbatim>\<open>exit (EXIT_FAILURE)\<close>, null dereference and uncaught exception is a value of the
  result type.
\<close>

subsection \<open>Strings\<close>

text \<open>\<^verbatim>\<open>std::string::find (needle, 0)\<close>: the first position where the needle starts.\<close>

fun str_find :: "string \<Rightarrow> string \<Rightarrow> nat option" where
  "str_find [] needle = (if needle = [] then Some 0 else None)"
| "str_find (c # cs) needle =
     (if take (length needle) (c # cs) = needle then Some 0
      else map_option Suc (str_find cs needle))"

text \<open>\<^verbatim>\<open>std::string::erase (pos, len)\<close>.\<close>

definition erase :: "string \<Rightarrow> nat \<Rightarrow> nat \<Rightarrow> string" where
  "erase s pos len = take pos s @ drop (pos + len) s"

text \<open>
  \<^verbatim>\<open>c_str ()\<close>, and the constructor of \<^verbatim>\<open>std::string\<close> from a \<^verbatim>\<open>char *\<close>: a C string ends
  at its first NUL byte.
\<close>

definition c_str :: "string \<Rightarrow> string" where
  "c_str s = takeWhile (\<lambda>c. c \<noteq> CHR 0x00) s"

text \<open>\<^verbatim>\<open>find_first_of\<close> and \<^verbatim>\<open>find_last_of\<close> for one character.\<close>

fun find_first_of :: "string \<Rightarrow> char \<Rightarrow> nat option" where
  "find_first_of [] ch = None"
| "find_first_of (c # cs) ch =
     (if c = ch then Some 0 else map_option Suc (find_first_of cs ch))"

fun find_last_of :: "string \<Rightarrow> char \<Rightarrow> nat option" where
  "find_last_of [] ch = None"
| "find_last_of (c # cs) ch =
     (case find_last_of cs ch of
        Some p \<Rightarrow> Some (Suc p)
      | None \<Rightarrow> (if c = ch then Some 0 else None))"

text \<open>
  \<^verbatim>\<open>boost::iter_split (result, input, boost::first_finder (sep))\<close>. Both call sites pass a
  separator of one character. The result always has one part more than the input has
  separators; the empty input gives one empty part.
\<close>

fun iter_split :: "string \<Rightarrow> char \<Rightarrow> string list" where
  "iter_split [] sep = [[]]"
| "iter_split (c # cs) sep =
     (if c = sep then [] # iter_split cs sep
      else (case iter_split cs sep of
              [] \<Rightarrow> [[c]]
            | t # ts \<Rightarrow> (c # t) # ts))"

text \<open>\<^verbatim>\<open>boost::to_upper_copy\<close> and \<^verbatim>\<open>boost::to_lower_copy\<close> in the classic locale.\<close>

definition to_upper :: "char \<Rightarrow> char" where
  "to_upper c =
     (if CHR ''a'' \<le> c \<and> c \<le> CHR ''z'' then char_of (of_char c - (32::nat)) else c)"

definition to_lower :: "char \<Rightarrow> char" where
  "to_lower c =
     (if CHR ''A'' \<le> c \<and> c \<le> CHR ''Z'' then char_of (of_char c + (32::nat)) else c)"

definition to_upper_copy :: "string \<Rightarrow> string" where
  "to_upper_copy s = map to_upper s"

definition to_lower_copy :: "string \<Rightarrow> string" where
  "to_lower_copy s = map to_lower s"

text \<open>
  \<^verbatim>\<open>static_cast<int> (char)\<close> and back. Whether \<^verbatim>\<open>char\<close> is signed is left to the
  platform, so it is a parameter: signed on x86, unsigned on ARM.
\<close>

definition char_to_int :: "bool \<Rightarrow> char \<Rightarrow> int" where
  "char_to_int is_signed c =
     (if is_signed \<and> 128 \<le> (of_char c :: int) then of_char c - 256 else of_char c)"

definition int_to_char :: "int \<Rightarrow> char" where
  "int_to_char i = char_of (i mod 256)"

subsection \<open>Numbers\<close>

text \<open>
  A \<^verbatim>\<open>double\<close> is a sign, a mantissa and a binary exponent (its numeric worth is
  \<open>\<plusminus> mantissa * 2 ^ exponent\<close>), an infinity or a NaN.
\<close>

datatype double = Finite bool nat int | Infinite bool | NaN bool

definition round_half_even :: "nat \<Rightarrow> nat \<Rightarrow> nat" where
  "round_half_even p q =
     (let f = p div q; r = p mod q
      in if 2 * r < q then f
         else if q < 2 * r then f + 1
         else if even f then f else f + 1)"

text \<open>The number of thousandths nearest to \<open>m * 2 ^ e\<close>, ties to even.\<close>

definition thousandths :: "nat \<Rightarrow> int \<Rightarrow> nat" where
  "thousandths m e =
     (if 0 \<le> e then m * 2 ^ nat e * 1000
      else round_half_even (m * 1000) (2 ^ nat (- e)))"

definition digit_char :: "nat \<Rightarrow> char" where
  "digit_char d = ''0123456789'' ! d"

fun show_nat :: "nat \<Rightarrow> string" where
  "show_nat n = (if n < 10 then [digit_char n] else show_nat (n div 10) @ [digit_char (n mod 10)])"

declare show_nat.simps [simp del]

definition show_frac3 :: "nat \<Rightarrow> string" where
  "show_frac3 n =
     [digit_char (n div 100 mod 10), digit_char (n div 10 mod 10), digit_char (n mod 10)]"

text \<open>
  \<^verbatim>\<open>to_string_\<close>: the stream is set to \<^verbatim>\<open>std::fixed\<close> with precision 3, which prints as
  \<^verbatim>\<open>printf ("%.3f")\<close> does: the sign (also of a negative zero), the integer part, a point
  and three digits, rounded to nearest with ties to even.
\<close>

fun to_string :: "double \<Rightarrow> string" where
  "to_string (Finite s m e) =
     (let n = thousandths m e
      in (if s then ''-'' else '''') @ show_nat (n div 1000) @ ''.'' @ show_frac3 (n mod 1000))"
| "to_string (Infinite s) = (if s then ''-inf'' else ''inf'')"
| "to_string (NaN s) = (if s then ''-nan'' else ''nan'')"

subsection \<open>The property tree\<close>

text \<open>
  \<^verbatim>\<open>boost::property_tree::ptree\<close>: a node holds a string and an ordered list of keyed
  children; a key may occur several times.
\<close>

datatype ptree = PTree string "(string \<times> ptree) list"

definition empty_ptree :: ptree where
  "empty_ptree = PTree [] []"

fun data :: "ptree \<Rightarrow> string" where
  "data (PTree d cs) = d"

fun children :: "ptree \<Rightarrow> (string \<times> ptree) list" where
  "children (PTree d cs) = cs"

text \<open>
  The first child with the key is changed; when there is none, a new child is appended
  and changed.
\<close>

fun modify_child :: "string \<Rightarrow> (ptree \<Rightarrow> ptree) \<Rightarrow> (string \<times> ptree) list \<Rightarrow> (string \<times> ptree) list" where
  "modify_child k f [] = [(k, f empty_ptree)]"
| "modify_child k f ((k', t) # cs) =
     (if k = k' then (k', f t) # cs else (k', t) # modify_child k f cs)"

primrec put_keys :: "string list \<Rightarrow> string \<Rightarrow> ptree \<Rightarrow> ptree" where
  "put_keys [] v t = PTree v (children t)"
| "put_keys (k # ks) v t = PTree (data t) (modify_child k (put_keys ks v) (children t))"

text \<open>\<^verbatim>\<open>ptree::put (path, v)\<close>: the path is split at the dots.\<close>

definition put :: "ptree \<Rightarrow> string \<Rightarrow> string \<Rightarrow> ptree" where
  "put t path v = put_keys (iter_split path CHR ''.'') v t"

text \<open>\<^verbatim>\<open>ptree::add_child (key, child)\<close> with a key of one part: always appends.\<close>

definition add_child :: "ptree \<Rightarrow> string \<Rightarrow> ptree \<Rightarrow> ptree" where
  "add_child t k child = PTree (data t) (children t @ [(k, child)])"

subsection \<open>Results and the process state\<close>

text \<open>
  Every way the source leaves the conversion early: the \<^verbatim>\<open>exit (EXIT_FAILURE)\<close> calls,
  named after the condition they report, the dereference of a null pointer and the
  uncaught \<^verbatim>\<open>std::out_of_range\<close> of \<^verbatim>\<open>std::string::at\<close>.
\<close>

datatype error =
    MalformedOutputName
  | MalformedMeshReference
  | MeshConversionFailed
  | UnsupportedGeometry
  | UnsupportedJointType
  | EmptyModel
  | NullPointer
  | OutOfRange

datatype 'a outcome = Returns 'a | Exits error | OutOfFuel

text \<open>
  The state outside the program: the command lines handed to \<^verbatim>\<open>popen\<close>, the pipes that
  are open, the directories that exist and the documents written. \<^verbatim>\<open>popen\<close> is given
  \<^verbatim>\<open>stream.str ().c_str ()\<close>, a C string.
\<close>

record world =
  commands :: "string list"
  open_pipes :: "string list"
  directories :: "string list"
  written :: "(string \<times> ptree) list"

text \<open>
  The collaborators the source calls: \<^verbatim>\<open>ros::package::getPath\<close>, the lines
  \<^verbatim>\<open>meshlabserver\<close> prints for a command line and the status it ends with,
  \<^verbatim>\<open>urdf::Rotation::getRPY\<close>, and the signedness of \<^verbatim>\<open>char\<close>.
\<close>

datatype Rotation = Rotation double double double double

record env =
  getPath :: "string \<Rightarrow> string"
  tool_output :: "string \<Rightarrow> string list"
  tool_status :: "string \<Rightarrow> int"
  getRPY :: "Rotation \<Rightarrow> double \<times> double \<times> double"
  char_signed :: bool

definition popen :: "string \<Rightarrow> world \<Rightarrow> world" where
  "popen cmd w = w\<lparr>commands := commands w @ [cmd], open_pipes := open_pipes w @ [cmd]\<rparr>"

definition pclose :: "env \<Rightarrow> string \<Rightarrow> world \<Rightarrow> int \<times> world" where
  "pclose e cmd w = (tool_status e cmd, w\<lparr>open_pipes := remove1 cmd (open_pipes w)\<rparr>)"

definition create_directories :: "string \<Rightarrow> world \<Rightarrow> world" where
  "create_directories d w = w\<lparr>directories := directories w @ [d]\<rparr>"

subsection \<open>The mesh conversion\<close>

text \<open>
  The loop that appends the tokens after the first to the package path. Its counter is
  an \<^verbatim>\<open>unsigned short\<close>, which wraps.
\<close>

fun append_tokens :: "16 word \<Rightarrow> string \<Rightarrow> string list \<Rightarrow> string" where
  "append_tokens n acc [] = acc"
| "append_tokens n acc (token # rest) =
     append_tokens (n + 1) (if n \<noteq> 0 then acc @ ''/'' @ token else acc) rest"

text \<open>
  The \<^verbatim>\<open>getline\<close> loop over the lines of the subprocess: it leaves the process at the
  first line with the marker. Each line is copied with \<^verbatim>\<open>std::string str (line)\<close>, which
  reads the buffer as a C string, so the marker is looked for before the first NUL byte
  of the line only.
\<close>

fun getline_loop :: "string list \<Rightarrow> unit outcome" where
  "getline_loop [] = Returns ()"
| "getline_loop (line # rest) =
     (let str = c_str line
      in if str_find str ''loaded has 0 vn'' \<noteq> None then Exits MeshConversionFailed
         else getline_loop rest)"

definition convert_mesh :: "env \<Rightarrow> string \<Rightarrow> string \<Rightarrow> world \<Rightarrow> string outcome \<times> world" where
  "convert_mesh e output_dir urdf_filename w =
     (case str_find urdf_filename ''package://'' of
        None \<Rightarrow> (Exits MalformedMeshReference, w)
      | Some pos1 \<Rightarrow>
          (let urdf_filename_copy = erase urdf_filename pos1 (length ''package://'');
               stringList = iter_split urdf_filename_copy CHR ''/''
           in if length stringList < 2 then (Exits MalformedMeshReference, w)
              else
                (let package_name = hd stringList;
                     original_filename = append_tokens 0 (getPath e package_name) stringList;
                     last_part =
                       (case find_first_of urdf_filename CHR ''/'' of
                          None \<Rightarrow> []
                        | Some sp0 \<Rightarrow>
                            (case find_last_of urdf_filename CHR ''/'' of
                               None \<Rightarrow> []
                             | Some sp \<Rightarrow> drop (sp + 1) urdf_filename));
                     stem =
                       (case find_first_of last_part CHR ''.'' of
                          None \<Rightarrow> last_part
                        | Some p \<Rightarrow> take p last_part);
                     mesh_dir = output_dir @ ''/meshes'';
                     w1 = (if mesh_dir \<in> set (directories w) then w
                           else create_directories mesh_dir w);
                     simox_filename = mesh_dir @ ''/'' @ (stem @ ''.wrl'');
                     stream = ''meshlabserver -i '' @ original_filename @ '' -o '' @ simox_filename;
                     cmd = c_str stream;
                     w2 = popen cmd w1
                 in (case getline_loop (tool_output e cmd) of
                       Returns u \<Rightarrow> (Returns simox_filename, snd (pclose e cmd w2))
                     | Exits err \<Rightarrow> (Exits err, w2)
                     | OutOfFuel \<Rightarrow> (OutOfFuel, w2)))))"

subsection \<open>The kinematic model\<close>

text \<open>
  The parts of \<^verbatim>\<open>urdf::Link\<close> and \<^verbatim>\<open>urdf::Joint\<close> that the conversion reads. The
  shared pointers that may be null (\<^verbatim>\<open>visual\<close>, \<^verbatim>\<open>limits\<close>) are options.
\<close>

datatype Vector3 = Vector3 double double double

record Pose =
  position :: Vector3
  rotation :: Rotation

datatype Geometry = SPHERE | BOX | CYLINDER | MESH string

record Visual =
  origin :: Pose
  geometry :: Geometry

datatype JointType = UNKNOWN | REVOLUTE | CONTINUOUS | PRISMATIC | FLOATING | PLANAR | FIXED

record JointLimits =
  lower :: double
  upper :: double

record Joint =
  joint_name :: string
  joint_type :: JointType
  axis :: Vector3
  parent_to_joint_origin_transform :: Pose
  limits :: "JointLimits option"
  child_link_name :: string

record Link =
  link_name :: string
  visual :: "Visual option"
  child_joints :: "Joint list"

text \<open>
  \<^verbatim>\<open>urdf::Model::getLink\<close> looks a link up by its name and gives a null pointer when there
  is none.
\<close>

definition getLink :: "Link list \<Rightarrow> string \<Rightarrow> Link option" where
  "getLink ls nm = find (\<lambda>l. link_name l = nm) ls"

text \<open>
  The object after its constructor: the links as \<^verbatim>\<open>getLinks\<close> gave them, the child
  joints of all of them sorted by name, and the output directory.
\<close>

record UrdfToSimoxXml =
  links :: "Link list"
  joints :: "Joint list"
  output_dir :: string

definition UrdfToSimoxXml :: "Link list \<Rightarrow> string \<Rightarrow> UrdfToSimoxXml outcome" where
  "UrdfToSimoxXml model_links dir =
     (if model_links = [] then Exits EmptyModel
      else Returns \<lparr>links = model_links,
                    joints = sort_key joint_name (concat (map child_joints model_links)),
                    output_dir = dir\<rparr>)"

subsection \<open>Attribute nodes\<close>

definition set_joint_limits_node :: "ptree \<Rightarrow> JointLimits option \<Rightarrow> ptree outcome" where
  "set_joint_limits_node Limits_node limits_ptr =
     (let n1 = put Limits_node ''<xmlattr>.unit'' ''radian''
      in case limits_ptr of
           None \<Rightarrow> Exits NullPointer
         | Some l \<Rightarrow>
             (let n2 = put n1 ''<xmlattr>.lo'' (to_string (lower l));
                  n3 = put n2 ''<xmlattr>.hi'' (to_string (upper l))
              in Returns n3))"

definition set_axis_node :: "ptree \<Rightarrow> double \<Rightarrow> double \<Rightarrow> double \<Rightarrow> ptree" where
  "set_axis_node Axis_node x y z =
     (let n1 = put Axis_node ''<xmlattr>.x'' (to_string x);
          n2 = put n1 ''<xmlattr>.y'' (to_string y);
          n3 = put n2 ''<xmlattr>.z'' (to_string z)
      in n3)"

fun set_axis_node_vec :: "ptree \<Rightarrow> Vector3 \<Rightarrow> ptree" where
  "set_axis_node_vec Axis_node (Vector3 x y z) = set_axis_node Axis_node x y z"

definition set_translation_node :: "ptree \<Rightarrow> double \<Rightarrow> double \<Rightarrow> double \<Rightarrow> ptree" where
  "set_translation_node Translation_node x y z =
     (let n1 = put Translation_node ''<xmlattr>.x'' (to_string x);
          n2 = put n1 ''<xmlattr>.y'' (to_string y);
          n3 = put n2 ''<xmlattr>.z'' (to_string z);
          n4 = put n3 ''<xmlattr>.unitsLength'' ''m''
      in n4)"

fun set_translation_node_vec :: "ptree \<Rightarrow> Vector3 \<Rightarrow> ptree" where
  "set_translation_node_vec Translation_node (Vector3 x y z) =
     set_translation_node Translation_node x y z"

definition set_rollpitchyaw_node :: "ptree \<Rightarrow> double \<Rightarrow> double \<Rightarrow> double \<Rightarrow> ptree" where
  "set_rollpitchyaw_node Translation_node roll pitch yaw =
     (let n1 = put Translation_node ''<xmlattr>.roll'' (to_string roll);
          n2 = put n1 ''<xmlattr>.pitch'' (to_string pitch);
          n3 = put n2 ''<xmlattr>.yaw'' (to_string yaw);
          n4 = put n3 ''<xmlattr>.unitsAngle'' ''radian''
      in n4)"

definition set_rollpitchyaw_node_rot :: "env \<Rightarrow> ptree \<Rightarrow> Rotation \<Rightarrow> ptree" where
  "set_rollpitchyaw_node_rot e Translation_node rot =
     (case getRPY e rot of (roll, pitch, yaw) \<Rightarrow>
        set_rollpitchyaw_node Translation_node roll pitch yaw)"

text \<open>The \<^verbatim>\<open>Transform\<close> node both kinds of node get from a pose.\<close>

definition transform_of_pose :: "env \<Rightarrow> Pose \<Rightarrow> ptree" where
  "transform_of_pose e pose =
     (let Translation_node = set_translation_node_vec empty_ptree (position pose);
          rollpitchyaw_node = set_rollpitchyaw_node_rot e empty_ptree (rotation pose);
          t1 = add_child empty_ptree ''Translation'' Translation_node;
          t2 = add_child t1 ''rollpitchyaw'' rollpitchyaw_node
      in t2)"

subsection \<open>The synthetic nodes\<close>

text \<open>The doubles the source writes as literals.\<close>

definition d_minus_0_01 :: double where
  "d_minus_0_01 = Finite True 5764607523034235 (- 59)"

definition d_minus_0_035 :: double where
  "d_minus_0_035 = Finite True 5044031582654956 (- 57)"

definition d_0_07 :: double where
  "d_0_07 = Finite False 5044031582654956 (- 56)"

definition d_1_0 :: double where
  "d_1_0 = Finite False 1 0"

definition d_0_0 :: double where
  "d_0_0 = Finite False 0 0"

definition add_hand_base_node :: "ptree \<Rightarrow> string \<Rightarrow> string \<Rightarrow> string \<Rightarrow> string \<Rightarrow> ptree" where
  "add_hand_base_node hand_node hand_base hand_tcp hand_gcp base_link =
     (let hand_base_node = put empty_ptree ''<xmlattr>.name'' hand_base;
          Child_node_1 = put empty_ptree ''<xmlattr>.name'' hand_tcp;
          Child_node_2 = put empty_ptree ''<xmlattr>.name'' hand_gcp;
          Child_node_3 = put empty_ptree ''<xmlattr>.name'' base_link;
          b1 = add_child hand_base_node ''Child'' Child_node_1;
          b2 = add_child b1 ''Child'' Child_node_2;
          b3 = add_child b2 ''Child'' Child_node_3
      in add_child hand_node ''RobotNode'' b3)"

definition add_hand_tcp_node :: "ptree \<Rightarrow> string \<Rightarrow> ptree" where
  "add_hand_tcp_node hand_node hand_tcp =
     (let n1 = put empty_ptree ''<xmlattr>.name'' hand_tcp;
          n2 = put n1 ''<xmlcomment>'' ''Translation values were set manually!'';
          Translation_node = set_translation_node empty_ptree d_minus_0_01 d_minus_0_035 d_0_07;
          Transform_node = add_child empty_ptree ''Translation'' Translation_node;
          n3 = add_child n2 ''Transform'' Transform_node
      in add_child hand_node ''RobotNode'' n3)"

definition add_hand_gcp_node :: "ptree \<Rightarrow> string \<Rightarrow> ptree" where
  "add_hand_gcp_node hand_node hand_gcp =
     (let n1 = put empty_ptree ''<xmlattr>.name'' hand_gcp;
          n2 = put n1 ''<xmlcomment>'' ''Translation and rollpitchyaw values were set manually!'';
          Translation_node = set_translation_node empty_ptree d_minus_0_01 d_minus_0_035 d_0_07;
          rollpitchyaw_node = set_rollpitchyaw_node empty_ptree d_1_0 d_0_0 d_0_0;
          t1 = add_child empty_ptree ''Translation'' Translation_node;
          t2 = add_child t1 ''rollpitchyaw'' rollpitchyaw_node;
          n3 = add_child n2 ''Transform'' t2
      in add_child hand_node ''RobotNode'' n3)"

subsection \<open>The tree emitter\<close>

text \<open>Sequencing of steps that may leave the process: the first exit ends the run.\<close>

definition and_then :: "'a outcome \<times> world \<Rightarrow> ('a \<Rightarrow> world \<Rightarrow> 'b outcome \<times> world) \<Rightarrow> 'b outcome \<times> world" where
  "and_then r f =
     (case r of
        (Returns a, w) \<Rightarrow> f a w
      | (Exits err, w) \<Rightarrow> (Exits err, w)
      | (OutOfFuel, w) \<Rightarrow> (OutOfFuel, w))"

text \<open>The loop that gives a link node one \<^verbatim>\<open>Child\<close> reference for each child joint.\<close>

fun add_child_references :: "ptree \<Rightarrow> Joint list \<Rightarrow> ptree" where
  "add_child_references link_node [] = link_node"
| "add_child_references link_node (child_joint # rest) =
     add_child_references
       (add_child link_node ''Child'' (put empty_ptree ''<xmlattr>.name'' (joint_name child_joint)))
       rest"

text \<open>
  The body of \<^verbatim>\<open>add_link_node_\<close> up to the point where the node is complete: the
  statements in the order of the source, with the two calls of \<^verbatim>\<open>convert_mesh_\<close>.
\<close>

definition build_link_node :: "env \<Rightarrow> string \<Rightarrow> Link \<Rightarrow> world \<Rightarrow> ptree outcome \<times> world" where
  "build_link_node e dir link w =
     (let link_node0 = put empty_ptree ''<xmlattr>.name'' (link_name link)
      in case visual link of
           None \<Rightarrow> (Exits NullPointer, w)
         | Some vis \<Rightarrow>
             (let link_node1 = add_child link_node0 ''Transform'' (transform_of_pose e (origin vis))
              in case geometry vis of
                   MESH filename \<Rightarrow>
                     and_then (convert_mesh e dir filename w) (\<lambda>path1 w1.
                       (let f1 = put empty_ptree ''<xmlattr>.type'' ''Inventor'';
                            Visualization_File_node = put f1 ''<xmltext>'' path1;
                            v1 = put empty_ptree ''<xmlattr>.enable'' ''true'';
                            Visualization_node = add_child v1 ''File'' Visualization_File_node;
                            link_node2 = add_child link_node1 ''Visualization'' Visualization_node
                        in and_then (convert_mesh e dir filename w1) (\<lambda>path2 w2.
                             (let c1 = put empty_ptree ''<xmlattr>.type'' ''Inventor'';
                                  CollisionModel_File_node = put c1 ''<xmltext>'' path2;
                                  CollisionModel_node =
                                    add_child empty_ptree ''File'' CollisionModel_File_node;
                                  link_node3 =
                                    add_child link_node2 ''CollisionModel'' CollisionModel_node;
                                  link_node4 = add_child_references link_node3 (child_joints link)
                              in (Returns link_node4, w2)))))
                 | _ \<Rightarrow> (Exits UnsupportedGeometry, w)))"

text \<open>
  The body of \<^verbatim>\<open>add_joint_node_\<close> up to the point where the node is complete; it also
  gives the child link that \<^verbatim>\<open>getLink\<close> found.
\<close>

definition build_joint_node :: "env \<Rightarrow> Link list \<Rightarrow> Joint \<Rightarrow> (ptree \<times> Link) outcome" where
  "build_joint_node e ls child_joint =
     (let j0 = put empty_ptree ''<xmlattr>.name'' (joint_name child_joint);
          j1 = add_child j0 ''Transform''
                 (transform_of_pose e (parent_to_joint_origin_transform child_joint));
          typed =
            (if joint_type child_joint = REVOLUTE then
               (let Axis_node = set_axis_node_vec empty_ptree (axis child_joint)
                in case set_joint_limits_node empty_ptree (limits child_joint) of
                     Returns Limits_node \<Rightarrow>
                       (let t0 = put empty_ptree ''<xmlattr>.type'' ''revolute'';
                            t1 = add_child t0 ''Axis'' Axis_node;
                            Joint_node = add_child t1 ''Limits'' Limits_node
                        in Returns (add_child j1 ''Joint'' Joint_node))
                   | Exits err \<Rightarrow> Exits err
                   | OutOfFuel \<Rightarrow> OutOfFuel)
             else if joint_type child_joint = FIXED then
               (let Joint_node = put empty_ptree ''<xmlattr>.type'' ''fixed''
                in Returns (add_child j1 ''Joint'' Joint_node))
             else Exits UnsupportedJointType)
      in case typed of
           Returns j2 \<Rightarrow>
             (case getLink ls (child_link_name child_joint) of
                None \<Rightarrow> Exits NullPointer
              | Some child_link \<Rightarrow>
                  (let Child_node = put empty_ptree ''<xmlattr>.name'' (link_name child_link)
                   in Returns (add_child j2 ''Child'' Child_node, child_link)))
         | Exits err \<Rightarrow> Exits err
         | OutOfFuel \<Rightarrow> OutOfFuel)"

text \<open>
  \<^verbatim>\<open>add_link_node_\<close> and \<^verbatim>\<open>add_joint_node_\<close> call each other along the joints of the
  model; nothing in the source bounds the recursion, so the functions take fuel: one
  unit for each link on the path from the first link. \<open>add_child_joints\<close> is the second
  loop of \<^verbatim>\<open>add_link_node_\<close>. The arguments after the fuel are the collaborators, the
  output directory and the links of the model (for \<^verbatim>\<open>getLink\<close>).
\<close>

function add_link_node :: "nat \<Rightarrow> env \<Rightarrow> string \<Rightarrow> Link list \<Rightarrow> ptree \<Rightarrow> Link \<Rightarrow> world \<Rightarrow> ptree outcome \<times> world"
  and add_child_joints :: "nat \<Rightarrow> env \<Rightarrow> string \<Rightarrow> Link list \<Rightarrow> ptree \<Rightarrow> Joint list \<Rightarrow> world \<Rightarrow> ptree outcome \<times> world"
  and add_joint_node :: "nat \<Rightarrow> env \<Rightarrow> string \<Rightarrow> Link list \<Rightarrow> ptree \<Rightarrow> Joint \<Rightarrow> world \<Rightarrow> ptree outcome \<times> world"
where
  "add_link_node 0 e dir ls hand_node link w = (OutOfFuel, w)"
| "add_link_node (Suc n) e dir ls hand_node link w =
     and_then (build_link_node e dir link w) (\<lambda>link_node w2.
       add_child_joints n e dir ls (add_child hand_node ''RobotNode'' link_node)
         (child_joints link) w2)"
| "add_child_joints n e dir ls hand_node [] w = (Returns hand_node, w)"
| "add_child_joints n e dir ls hand_node (child_joint # rest) w =
     and_then (add_joint_node n e dir ls hand_node child_joint w) (\<lambda>hand_node1 w1.
       add_child_joints n e dir ls hand_node1 rest w1)"
| "add_joint_node n e dir ls hand_node child_joint w =
     (case build_joint_node e ls child_joint of
        Returns (child_joint_node, child_link) \<Rightarrow>
          add_link_node n e dir ls (add_child hand_node ''RobotNode'' child_joint_node)
            child_link w
      | Exits err \<Rightarrow> (Exits err, w)
      | OutOfFuel \<Rightarrow> (OutOfFuel, w))"
  by pat_completeness auto

termination
  by (relation "measures
        [\<lambda>x. case x of Inl (n, r) \<Rightarrow> n | Inr (Inl (n, r)) \<Rightarrow> n | Inr (Inr (n, r)) \<Rightarrow> n,
         \<lambda>x. case x of Inl r \<Rightarrow> 0 | Inr (Inl r) \<Rightarrow> 2 | Inr (Inr r) \<Rightarrow> 1,
         \<lambda>x. case x of Inl r \<Rightarrow> 0 | Inr (Inl (n, e, dir, ls, h, js, w)) \<Rightarrow> length js
                    | Inr (Inr r) \<Rightarrow> 0]") auto

subsection \<open>The actors\<close>

text \<open>
  \<^verbatim>\<open>std::map<int, bool>\<close>: the entries in ascending order of their keys, which is the
  order an iterator visits them in.
\<close>

fun map_insert :: "int \<Rightarrow> bool \<Rightarrow> (int \<times> bool) list \<Rightarrow> (int \<times> bool) list" where
  "map_insert k v [] = [(k, v)]"
| "map_insert k v ((k', v') # m) =
     (if k < k' then (k, v) # (k', v') # m
      else if k = k' then (k', v) # m
      else (k', v') # map_insert k v m)"

text \<open>The loop of \<^verbatim>\<open>get_actors\<close>; \<^verbatim>\<open>name.at (0)\<close> throws on an empty name.\<close>

fun get_actors_loop :: "bool \<Rightarrow> Joint list \<Rightarrow> (int \<times> bool) list \<Rightarrow> (int \<times> bool) list outcome" where
  "get_actors_loop is_signed [] actors = Returns actors"
| "get_actors_loop is_signed (joint # rest) actors =
     (case joint_name joint of
        [] \<Rightarrow> Exits OutOfRange
      | first_char # cs \<Rightarrow>
          (let first_int = char_to_int is_signed first_char
           in get_actors_loop is_signed rest
                (if map_of actors first_int = None then map_insert first_int True actors
                 else actors)))"

definition get_actors :: "env \<Rightarrow> UrdfToSimoxXml \<Rightarrow> (int \<times> bool) list outcome" where
  "get_actors e this = get_actors_loop (char_signed e) (joints this) []"

subsection \<open>The end effector and the joint set\<close>

fun preshape_loop :: "ptree \<Rightarrow> Joint list \<Rightarrow> ptree" where
  "preshape_loop Preshape_node [] = Preshape_node"
| "preshape_loop Preshape_node (joint # rest) =
     (let n1 = put empty_ptree ''<xmlattr>.name'' (joint_name joint);
          n2 = put n1 ''<xmlattr>.unit'' ''radian'';
          n3 = put n2 ''<xmlattr>.value'' ''0.0''
      in preshape_loop (add_child Preshape_node ''Node'' n3) rest)"

text \<open>
  The two inner loops of the actor loop have the same body, over the names of the links
  and over the names of the joints.
\<close>

fun actor_members_loop :: "char \<Rightarrow> ptree \<Rightarrow> string list \<Rightarrow> ptree outcome" where
  "actor_members_loop actor_name Actor_node [] = Returns Actor_node"
| "actor_members_loop actor_name Actor_node (nm # rest) =
     (case nm of
        [] \<Rightarrow> Exits OutOfRange
      | first_char # cs \<Rightarrow>
          (if actor_name = first_char then
             (let n1 = put empty_ptree ''<xmlattr>.name'' nm;
                  n2 = put n1 ''<xmlattr>.considerCollisions'' ''None''
              in actor_members_loop actor_name (add_child Actor_node ''Node'' n2) rest)
           else actor_members_loop actor_name Actor_node rest))"

fun actors_loop :: "UrdfToSimoxXml \<Rightarrow> ptree \<Rightarrow> (int \<times> bool) list \<Rightarrow> ptree outcome" where
  "actors_loop this Endeffector_node [] = Returns Endeffector_node"
| "actors_loop this Endeffector_node ((k, v) # rest) =
     (let actor_name = int_to_char k;
          a1 = put empty_ptree ''<xmlattr>.name'' [actor_name];
          a2 = put a1 ''<xmlcomment>'' ''This is just a template. Please set values manually!'';
          a3 = put a2 ''<xmlcomment>'' ''Note that considerCollisions = None, Actors, or All!''
      in case actor_members_loop actor_name a3 (map link_name (links this)) of
           Returns a4 \<Rightarrow>
             (case actor_members_loop actor_name a4 (map joint_name (joints this)) of
                Returns Actor_node \<Rightarrow>
                  actors_loop this (add_child Endeffector_node ''Actor'' Actor_node) rest
              | Exits err \<Rightarrow> Exits err
              | OutOfFuel \<Rightarrow> OutOfFuel)
         | Exits err \<Rightarrow> Exits err
         | OutOfFuel \<Rightarrow> OutOfFuel)"

definition add_endeffector_node :: "env \<Rightarrow> UrdfToSimoxXml \<Rightarrow> ptree \<Rightarrow> string \<Rightarrow> string \<Rightarrow> string \<Rightarrow> string \<Rightarrow> string \<Rightarrow> ptree outcome" where
  "add_endeffector_node e this hand_node hand_name_upper hand_base hand_tcp hand_gcp base_link =
     (let e1 = put empty_ptree ''<xmlcomment>''
                 ''This node is for Simox (e.g., GraspPlanner in Simox)!'';
          e2 = put e1 ''<xmlattr>.name'' hand_name_upper;
          e3 = put e2 ''<xmlattr>.base'' hand_base;
          e4 = put e3 ''<xmlattr>.tcp'' hand_tcp;
          e5 = put e4 ''<xmlattr>.gcp'' hand_gcp;
          p1 = put empty_ptree ''<xmlattr>.name'' ''Grasp Preshape'';
          p2 = put p1 ''<xmlcomment>'' ''This is just a template. Please set values manually!'';
          Preshape_node = preshape_loop p2 (joints this);
          e6 = add_child e5 ''Preshape'' Preshape_node;
          Node_node = put empty_ptree ''<xmlattr>.name'' base_link;
          Static_node = add_child empty_ptree ''Node'' Node_node;
          e7 = add_child e6 ''Static'' Static_node
      in case get_actors e this of
           Returns actors \<Rightarrow>
             (case actors_loop this e7 actors of
                Returns Endeffector_node \<Rightarrow>
                  Returns (add_child hand_node ''Endeffector'' Endeffector_node)
              | Exits err \<Rightarrow> Exits err
              | OutOfFuel \<Rightarrow> OutOfFuel)
         | Exits err \<Rightarrow> Exits err
         | OutOfFuel \<Rightarrow> OutOfFuel)"

fun hand_joints_loop :: "ptree \<Rightarrow> Joint list \<Rightarrow> ptree" where
  "hand_joints_loop hand_joints_node [] = hand_joints_node"
| "hand_joints_loop hand_joints_node (joint # rest) =
     hand_joints_loop
       (add_child hand_joints_node ''Node'' (put empty_ptree ''<xmlattr>.name'' (joint_name joint)))
       rest"

definition add_hand_joints_node :: "UrdfToSimoxXml \<Rightarrow> ptree \<Rightarrow> string \<Rightarrow> ptree" where
  "add_hand_joints_node this hand_node hand_name_upper =
     (let s1 = put empty_ptree ''<xmlcomment>''
                 ''This node is for Simox (e.g., GraspPlanner in Simox)!'';
          s2 = put s1 ''<xmlattr>.name'' (hand_name_upper @ '' Joints'');
          hand_joints_node = hand_joints_loop s2 (joints this)
      in add_child hand_node ''RobotNodeSet'' hand_joints_node)"

subsection \<open>The document\<close>

text \<open>
  \<^verbatim>\<open>write_xml\<close>. The constructor has left the process when the model has no link, so
  \<^verbatim>\<open>links_[0]\<close> is read from a list that is not empty; the first case is the
  constructor's exit. The document counts as written when it is in \<open>written\<close> under the
  path of the file.
\<close>

definition write_xml :: "nat \<Rightarrow> env \<Rightarrow> UrdfToSimoxXml \<Rightarrow> string \<Rightarrow> string \<Rightarrow> world \<Rightarrow> unit outcome \<times> world" where
  "write_xml fuel e this out_dir simox_xml_filename w =
     (let stringList = iter_split simox_xml_filename CHR ''.''
      in if length stringList \<noteq> 2 then (Exits MalformedOutputName, w)
         else
           (let hand_name = hd stringList;
                hand_name_upper = to_upper_copy hand_name;
                hand_name_lower = to_lower_copy hand_name;
                hand_base = hand_name_lower @ ''_hand_base'';
                hand_tcp = hand_name_lower @ ''_hand_tcp'';
                hand_gcp = hand_name_lower @ ''_hand_gcp''
            in case links this of
                 [] \<Rightarrow> (Exits EmptyModel, w)
               | first_link # others \<Rightarrow>
                   (let base_link = link_name first_link;
                        h1 = put empty_ptree ''<xmlattr>.Type'' hand_name_upper;
                        h2 = put h1 ''<xmlattr>.RootNode'' hand_base;
                        h3 = add_hand_base_node h2 hand_base hand_tcp hand_gcp base_link;
                        h4 = add_hand_tcp_node h3 hand_tcp;
                        h5 = add_hand_gcp_node h4 hand_gcp
                    in and_then
                         (add_link_node fuel e (output_dir this) (links this) h5 first_link w)
                         (\<lambda>h6 w1.
                            case add_endeffector_node e this h6 hand_name_upper hand_base
                                   hand_tcp hand_gcp base_link of
                              Returns h7 \<Rightarrow>
                                (let hand_node = add_hand_joints_node this h7 hand_name_upper;
                                     pt = add_child empty_ptree ''Robot'' hand_node;
                                     simox_xml_file = out_dir @ ''/'' @ simox_xml_filename
                                 in (Returns (), w1\<lparr>written := written w1 @ [(simox_xml_file, pt)]\<rparr>))
                            | Exits err \<Rightarrow> (Exits err, w1)
                            | OutOfFuel \<Rightarrow> (OutOfFuel, w1)))))"

section \<open>A model of two links\<close>

text \<open>
  A hand of two links and one revolute joint about the z axis with the limits -1.57 and
  1.57 (the doubles nearest to them), with collaborators that resolve every package
  below one directory and a tool that prints nothing.
\<close>

definition zero_pose :: Pose where
  "zero_pose = \<lparr>position = Vector3 d_0_0 d_0_0 d_0_0, rotation = Rotation d_0_0 d_0_0 d_0_0 d_1_0\<rparr>"

definition finger_joint :: Joint where
  "finger_joint =
     \<lparr>joint_name = ''finger_joint'', joint_type = REVOLUTE,
      axis = Vector3 d_0_0 d_0_0 d_1_0, parent_to_joint_origin_transform = zero_pose,
      limits = Some \<lparr>lower = Finite True 7070651414971679 (- 52),
                      upper = Finite False 7070651414971679 (- 52)\<rparr>,
      child_link_name = ''finger_link''\<rparr>"

definition base_link :: Link where
  "base_link =
     \<lparr>link_name = ''base_link'',
      visual = Some \<lparr>origin = zero_pose,
                      geometry = MESH ''package://dms_description/meshes/base_link.STL''\<rparr>,
      child_joints = [finger_joint]\<rparr>"

definition finger_link :: Link where
  "finger_link =
     \<lparr>link_name = ''finger_link'',
      visual = Some \<lparr>origin = zero_pose,
                      geometry = MESH ''package://dms_description/meshes/finger_link.STL''\<rparr>,
      child_joints = []\<rparr>"

definition quiet_env :: env where
  "quiet_env =
     \<lparr>getPath = (\<lambda>p. ''/opt/ros/share/'' @ p), tool_output = (\<lambda>c. []),
      tool_status = (\<lambda>c. 0), getRPY = (\<lambda>r. (d_0_0, d_0_0, d_0_0)), char_signed = True\<rparr>"

definition fresh_world :: world where
  "fresh_world = \<lparr>commands = [], open_pipes = [], directories = [], written = []\<rparr>"

definition dms_hand :: UrdfToSimoxXml where
  "dms_hand = \<lparr>links = [base_link, finger_link], joints = [finger_joint], output_dir = ''/tmp/out''\<rparr>"

text \<open>A tool that reports a mesh without normals and still ends with status zero.\<close>

definition no_normals_env :: env where
  "no_normals_env =
     quiet_env\<lparr>tool_output :=
                 (\<lambda>c. [''Loading Plugins:'', ''Mesh base_link.STL loaded has 0 vn 36 fn'',
                       ''Mesh saved'']),
               tool_status := (\<lambda>c. 0)\<rparr>"


section \<open>Notions for the properties\<close>

subsection \<open>Reading a document\<close>

text \<open>
  A property tree read as the XML document it is written as: the children of a node
  with a given key, in their order, and an attribute, which is the data of a child of the
  \<^verbatim>\<open><xmlattr>\<close> child.
\<close>

definition subnodes :: "string \<Rightarrow> ptree \<Rightarrow> ptree list" where
  "subnodes k t = map snd (filter (\<lambda>kc. fst kc = k) (children t))"

definition attr :: "ptree \<Rightarrow> string \<Rightarrow> string option" where
  "attr t a =
     (case subnodes ''<xmlattr>'' t of
        [] \<Rightarrow> None
      | x # xs \<Rightarrow> (case subnodes a x of [] \<Rightarrow> None | v # vs \<Rightarrow> Some (data v)))"

text \<open>
  The \<^verbatim>\<open>RobotNode\<close>, \<^verbatim>\<open>Endeffector\<close> and \<^verbatim>\<open>RobotNodeSet\<close> nodes below \<^verbatim>\<open>Robot\<close>, the
  \<^verbatim>\<open>Actor\<close> nodes of the end effectors, and the document that was written last.
\<close>

definition robot_nodes :: "ptree \<Rightarrow> ptree list" where
  "robot_nodes pt = concat (map (subnodes ''RobotNode'') (subnodes ''Robot'' pt))"

definition endeffectors :: "ptree \<Rightarrow> ptree list" where
  "endeffectors pt = concat (map (subnodes ''Endeffector'') (subnodes ''Robot'' pt))"

definition node_sets :: "ptree \<Rightarrow> ptree list" where
  "node_sets pt = concat (map (subnodes ''RobotNodeSet'') (subnodes ''Robot'' pt))"

definition actor_nodes :: "ptree \<Rightarrow> ptree list" where
  "actor_nodes pt = concat (map (subnodes ''Actor'') (endeffectors pt))"

definition last_document :: "world \<Rightarrow> ptree" where
  "last_document w = snd (last (written w))"

text \<open>
  The names a node refers to: those of its \<^verbatim>\<open>Child\<close> nodes and, for a \<^verbatim>\<open>Preshape\<close>, a
  \<^verbatim>\<open>Static\<close>, an \<^verbatim>\<open>Actor\<close> or a \<^verbatim>\<open>RobotNodeSet\<close>, those of its \<^verbatim>\<open>Node\<close> members. A link
  node is a \<^verbatim>\<open>RobotNode\<close> with a \<^verbatim>\<open>Visualization\<close>, a joint node one with a \<^verbatim>\<open>Joint\<close>.
\<close>

definition child_refs :: "ptree \<Rightarrow> string option list" where
  "child_refs n = map (\<lambda>c. attr c ''name'') (subnodes ''Child'' n)"

definition member_refs :: "ptree \<Rightarrow> string option list" where
  "member_refs n = map (\<lambda>c. attr c ''name'') (subnodes ''Node'' n)"

definition is_link_node :: "ptree \<Rightarrow> bool" where
  "is_link_node n = (subnodes ''Visualization'' n \<noteq> [])"

definition is_joint_node :: "ptree \<Rightarrow> bool" where
  "is_joint_node n = (subnodes ''Joint'' n \<noteq> [])"

text \<open>
  The names that a document defines, one for each \<^verbatim>\<open>RobotNode\<close>, and all the names it
  refers to: the \<^verbatim>\<open>Child\<close> references of the nodes, the \<open>base\<close>, \<open>tcp\<close> and \<open>gcp\<close> of an end
  effector with the members of its \<^verbatim>\<open>Preshape\<close>, \<^verbatim>\<open>Static\<close> and \<^verbatim>\<open>Actor\<close> nodes, and the
  members of the \<^verbatim>\<open>RobotNodeSet\<close>.
\<close>

definition defined_names :: "ptree \<Rightarrow> string option list" where
  "defined_names pt = map (\<lambda>n. attr n ''name'') (robot_nodes pt)"

definition endeffector_refs :: "ptree \<Rightarrow> string option list" where
  "endeffector_refs ef =
     [attr ef ''base'', attr ef ''tcp'', attr ef ''gcp''] @
     concat (map member_refs (subnodes ''Preshape'' ef)) @
     concat (map member_refs (subnodes ''Static'' ef)) @
     concat (map member_refs (subnodes ''Actor'' ef))"

definition references :: "ptree \<Rightarrow> string option list" where
  "references pt =
     concat (map child_refs (robot_nodes pt)) @
     concat (map endeffector_refs (endeffectors pt)) @
     concat (map member_refs (node_sets pt))"

subsection \<open>Kinematic trees\<close>

text \<open>
  The joints of a model are the child joints of its links. The parent of a link is the
  link with a joint that leads to it; \<open>climb\<close> follows the parents from a link up to the
  root, for a bounded number of steps.
\<close>

definition all_joints :: "Link list \<Rightarrow> Joint list" where
  "all_joints ls = concat (map child_joints ls)"

definition parent_link :: "Link list \<Rightarrow> string \<Rightarrow> Link option" where
  "parent_link ls nm = find (\<lambda>l. nm \<in> set (map child_link_name (child_joints l))) ls"

primrec climb :: "nat \<Rightarrow> Link list \<Rightarrow> string \<Rightarrow> string \<Rightarrow> string list option" where
  "climb 0 ls r nm = (if nm = r then Some [r] else None)"
| "climb (Suc k) ls r nm =
     (if nm = r then Some [r]
      else (case parent_link ls nm of
              None \<Rightarrow> None
            | Some p \<Rightarrow> map_option ((#) nm) (climb k ls r (link_name p))))"

text \<open>
  The links form a tree below the root \<open>rt\<close>: the names of the links, the names of the
  joints and the links that the joints lead to are each without repetition, every joint
  leads to a link of the model other than the root, and from every link the parents lead
  up to the root.
\<close>

definition kinematic_tree :: "Link list \<Rightarrow> Link \<Rightarrow> bool" where
  "kinematic_tree ls rt =
     (rt \<in> set ls \<and>
      distinct (map link_name ls) \<and>
      distinct (map joint_name (all_joints ls)) \<and>
      distinct (map child_link_name (all_joints ls)) \<and>
      set (map child_link_name (all_joints ls)) \<subseteq> set (map link_name ls) - {link_name rt} \<and>
      list_all (\<lambda>l. climb (length ls) ls (link_name rt) (link_name l) \<noteq> None) ls)"

definition route :: "Link list \<Rightarrow> Link \<Rightarrow> string \<Rightarrow> string list" where
  "route ls rt m = (case climb (length ls) ls (link_name rt) m of None \<Rightarrow> [] | Some P \<Rightarrow> P)"

subsection \<open>The walk\<close>

text \<open>
  The order in which \<^verbatim>\<open>add_link_node_\<close> and \<^verbatim>\<open>add_joint_node_\<close> call each other, without
  the nodes they build: a link, then for each of its child joints the joint and the walk
  from the link it leads to.
\<close>

datatype item = LinkItem Link | JointItem Joint

fun item_name :: "item \<Rightarrow> string" where
  "item_name (LinkItem l) = link_name l"
| "item_name (JointItem j) = joint_name j"

primrec visit :: "nat \<Rightarrow> Link list \<Rightarrow> Link \<Rightarrow> item list" where
  "visit 0 ls l = []"
| "visit (Suc n) ls l =
     LinkItem l #
     concat (map (\<lambda>j. JointItem j #
                    (case getLink ls (child_link_name j) of
                       None \<Rightarrow> []
                     | Some c \<Rightarrow> visit n ls c))
              (child_joints l))"

definition visit_joint :: "nat \<Rightarrow> Link list \<Rightarrow> Joint \<Rightarrow> item list" where
  "visit_joint n ls j =
     JointItem j # (case getLink ls (child_link_name j) of None \<Rightarrow> [] | Some c \<Rightarrow> visit n ls c)"

definition link_items :: "item list \<Rightarrow> Link list" where
  "link_items items = concat (map (\<lambda>i. case i of LinkItem l \<Rightarrow> [l] | JointItem j \<Rightarrow> []) items)"

definition joint_items :: "item list \<Rightarrow> Joint list" where
  "joint_items items = concat (map (\<lambda>i. case i of LinkItem l \<Rightarrow> [] | JointItem j \<Rightarrow> [j]) items)"

text \<open>
  A node matches an item of the walk when it has its name, its \<^verbatim>\<open>Child\<close> references and
  its kind; it is emitted for the item when it is the node that \<^verbatim>\<open>add_link_node_\<close> or
  \<^verbatim>\<open>add_joint_node_\<close> builds for it. \<open>appended\<close> adds \<^verbatim>\<open>RobotNode\<close> children to a node.
\<close>

fun matches :: "item \<Rightarrow> ptree \<Rightarrow> bool" where
  "matches (LinkItem l) n =
     (attr n ''name'' = Some (link_name l) \<and>
      child_refs n = map (\<lambda>j. Some (joint_name j)) (child_joints l) \<and>
      is_link_node n \<and> \<not> is_joint_node n)"
| "matches (JointItem j) n =
     (attr n ''name'' = Some (joint_name j) \<and>
      child_refs n = [Some (child_link_name j)] \<and>
      is_joint_node n \<and> \<not> is_link_node n)"

fun emitted :: "env \<Rightarrow> string \<Rightarrow> Link list \<Rightarrow> item \<Rightarrow> ptree \<Rightarrow> bool" where
  "emitted e dir ls (LinkItem l) n = (\<exists>w w'. build_link_node e dir l w = (Returns n, w'))"
| "emitted e dir ls (JointItem j) n = (\<exists>c. build_joint_node e ls j = Returns (n, c))"

definition appended :: "ptree \<Rightarrow> ptree list \<Rightarrow> ptree" where
  "appended h nodes = PTree (data h) (children h @ map (Pair ''RobotNode'') nodes)"

subsection \<open>The supported subset\<close>

text \<open>
  The models on which the emitter does not leave the process: every link has a name and
  a visual with a mesh that \<^verbatim>\<open>convert_mesh_\<close> converts, every joint has a name and is fixed,
  or revolute with limits.
\<close>

definition mesh_converts :: "env \<Rightarrow> string \<Rightarrow> string \<Rightarrow> bool" where
  "mesh_converts e dir fn =
     (case fst (convert_mesh e dir fn fresh_world) of Returns p \<Rightarrow> True | _ \<Rightarrow> False)"

definition supported_link :: "env \<Rightarrow> string \<Rightarrow> Link \<Rightarrow> bool" where
  "supported_link e dir l =
     (link_name l \<noteq> [] \<and>
      (case visual l of
         None \<Rightarrow> False
       | Some vis \<Rightarrow> (case geometry vis of MESH fn \<Rightarrow> mesh_converts e dir fn | _ \<Rightarrow> False)))"

definition supported_joint :: "Joint \<Rightarrow> bool" where
  "supported_joint j =
     (joint_name j \<noteq> [] \<and>
      (joint_type j = FIXED \<or> joint_type j = REVOLUTE \<and> limits j \<noteq> None))"

definition supported :: "env \<Rightarrow> string \<Rightarrow> Link list \<Rightarrow> bool" where
  "supported e dir ls =
     (list_all (supported_link e dir) ls \<and> list_all supported_joint (all_joints ls))"

subsection \<open>The names taken from the file name\<close>

text \<open>
  The name of the hand in upper and lower case, the names of the three synthetic nodes,
  and the \<^verbatim>\<open>Robot\<close> node as \<^verbatim>\<open>write_xml\<close> has it before the walk starts.
\<close>

definition hand_upper :: "string \<Rightarrow> string" where
  "hand_upper fn = to_upper_copy (hd (iter_split fn CHR ''.''))"

definition hand_lower :: "string \<Rightarrow> string" where
  "hand_lower fn = to_lower_copy (hd (iter_split fn CHR ''.''))"

definition synthetic_names :: "string \<Rightarrow> string list" where
  "synthetic_names fn =
     [hand_lower fn @ ''_hand_base'', hand_lower fn @ ''_hand_tcp'', hand_lower fn @ ''_hand_gcp'']"

definition scaffold :: "string \<Rightarrow> string \<Rightarrow> ptree" where
  "scaffold fn bl =
     add_hand_gcp_node
       (add_hand_tcp_node
          (add_hand_base_node
             (put (put empty_ptree ''<xmlattr>.Type'' (hand_upper fn)) ''<xmlattr>.RootNode''
                (hand_lower fn @ ''_hand_base''))
             (hand_lower fn @ ''_hand_base'') (hand_lower fn @ ''_hand_tcp'')
             (hand_lower fn @ ''_hand_gcp'') bl)
          (hand_lower fn @ ''_hand_tcp''))
       (hand_lower fn @ ''_hand_gcp'')"

subsection \<open>Actors\<close>

text \<open>
  The \<^verbatim>\<open>Actor\<close> node for a key of the map that \<^verbatim>\<open>get_actors\<close> returns: it is named by the
  character, and its members are the names of links and joints that start with it.
\<close>

definition actor_of :: "UrdfToSimoxXml \<Rightarrow> int \<times> bool \<Rightarrow> ptree \<Rightarrow> bool" where
  "actor_of this kv a =
     (attr a ''name'' = Some [int_to_char (fst kv)] \<and>
      member_refs a =
        map Some (filter (\<lambda>nm. hd nm = int_to_char (fst kv))
                    (map link_name (links this) @ map joint_name (joints this))))"

text \<open>
  The distinct elements of a list in the order in which each is first seen: the head,
  then what is first seen in the rest, without the head.
\<close>

primrec first_observed :: "'a list \<Rightarrow> 'a list" where
  "first_observed [] = []"
| "first_observed (x # xs) = x # removeAll x (first_observed xs)"

subsection \<open>The number that a numeral denotes\<close>


definition is_digit :: "char \<Rightarrow> bool" where
  "is_digit c = (c \<in> set ''0123456789'')"

definition digit_of :: "char \<Rightarrow> nat" where
  "digit_of c = of_char c - 48"

fun digits_value :: "nat \<Rightarrow> string \<Rightarrow> nat option" where
  "digits_value acc [] = Some acc"
| "digits_value acc (c # cs) =
     (if is_digit c then digits_value (10 * acc + digit_of c) cs else None)"

definition decimal_value :: "string \<Rightarrow> real option" where
  "decimal_value str =
     (let negative = (str \<noteq> [] \<and> hd str = CHR ''-'');
          body = (if negative then tl str else str);
          whole = takeWhile (\<lambda>c. c \<noteq> CHR ''.'') body;
          fraction = drop 1 (dropWhile (\<lambda>c. c \<noteq> CHR ''.'') body)
      in if whole = [] then None
         else if CHR ''.'' \<in> set body
         then (case (digits_value 0 whole, digits_value 0 fraction) of
                 (Some a, Some b) \<Rightarrow>
                   Some ((if negative then - 1 else 1) * (real a + real b / 10 ^ length fraction))
               | _ \<Rightarrow> None)
         else None)"

section \<open>More models\<close>

text \<open>
  Links with a mesh and fixed joints, by name. A palm with two fixed joints, declared in
  the order \<open>epaule\<close> (with an acute accent on the first letter, two bytes in UTF-8),
  \<open>index\<close>: the constructor sorts them by name, bytes compared as unsigned, and \<open>index\<close>
  comes first.
\<close>

definition plain_joint :: "string \<Rightarrow> string \<Rightarrow> Joint" where
  "plain_joint nm child =
     \<lparr>joint_name = nm, joint_type = FIXED, axis = Vector3 d_0_0 d_0_0 d_0_0,
      parent_to_joint_origin_transform = zero_pose, limits = None, child_link_name = child\<rparr>"

definition plain_link :: "string \<Rightarrow> Joint list \<Rightarrow> Link" where
  "plain_link nm js =
     \<lparr>link_name = nm,
      visual = Some \<lparr>origin = zero_pose,
                      geometry = MESH (''package://hand_description/meshes/'' @ nm @ ''.STL'')\<rparr>,
      child_joints = js\<rparr>"

definition accent_links :: "Link list" where
  "accent_links =
     [plain_link ''palm'' [plain_joint (CHR 0xC3 # CHR 0xA9 # ''paule'') ''upper'',
                            plain_joint ''index'' ''finger''],
      plain_link ''finger'' [], plain_link ''upper'' []]"

definition accent_hand :: UrdfToSimoxXml where
  "accent_hand =
     \<lparr>links = accent_links,
      joints = [plain_joint ''index'' ''finger'',
                plain_joint (CHR 0xC3 # CHR 0xA9 # ''paule'') ''upper''],
      output_dir = ''/tmp/out''\<rparr>"

text \<open>
  A palm with one finger. \<^verbatim>\<open>getLinks\<close> lists the links in the order of their names, so
  the finger comes first and the root second. The joint is fixed in the first model and,
  in the second, revolute about \<open>(0, 0, 1)\<close> with the limits -1.57 and 1.57.
\<close>

definition palm_first_links :: "Link list" where
  "palm_first_links = [plain_link ''finger'' [], plain_link ''palm'' [plain_joint ''knuckle'' ''finger'']]"

definition palm_first_hand :: UrdfToSimoxXml where
  "palm_first_hand =
     \<lparr>links = palm_first_links, joints = [plain_joint ''knuckle'' ''finger''], output_dir = ''/tmp/out''\<rparr>"

definition knuckle_joint :: Joint where
  "knuckle_joint =
     \<lparr>joint_name = ''knuckle'', joint_type = REVOLUTE,
      axis = Vector3 d_0_0 d_0_0 d_1_0, parent_to_joint_origin_transform = zero_pose,
      limits = Some \<lparr>lower = Finite True 7070651414971679 (- 52),
                      upper = Finite False 7070651414971679 (- 52)\<rparr>,
      child_link_name = ''finger''\<rparr>"

definition palm_knuckle_links :: "Link list" where
  "palm_knuckle_links = [plain_link ''finger'' [], plain_link ''palm'' [knuckle_joint]]"

definition palm_knuckle_hand :: UrdfToSimoxXml where
  "palm_knuckle_hand =
     \<lparr>links = palm_knuckle_links, joints = [knuckle_joint], output_dir = ''/tmp/out''\<rparr>"

text \<open>
  A base with a finger, where the joint has the name of the link it leads to.
\<close>

definition namesake_links :: "Link list" where
  "namesake_links = [plain_link ''base'' [plain_joint ''finger'' ''finger''], plain_link ''finger'' []]"

definition namesake_hand :: UrdfToSimoxXml where
  "namesake_hand =
     \<lparr>links = namesake_links, joints = [plain_joint ''finger'' ''finger''], output_dir = ''/tmp/out''\<rparr>"

section \<open>Properties\<close>

subsection \<open>Splitting\<close>

lemma iter_split_not_Nil: "iter_split s sep \<noteq> []"
  by (induction s) (auto split: list.splits)

lemma length_iter_split: "length (iter_split s sep) = Suc (count_list s sep)"
proof (induction s)
  case Nil
  show ?case by simp
next
  case (Cons c cs)
  obtain t ts where "iter_split cs sep = t # ts"
    using iter_split_not_Nil [of cs sep] by (cases "iter_split cs sep") auto
  with Cons show ?case by auto
qed

subsection \<open>The name of the output file\<close>

text \<open>
  C6. A file name that does not have exactly one dot does not split into two parts, and
  \<^verbatim>\<open>write_xml\<close> leaves the process with \<open>MalformedOutputName\<close> whatever the model is:
  the links are never read, no command is run and no document is written, the state
  outside the program is as it was.
\<close>

theorem write_xml_malformed_output_name:
  "count_list simox_xml_filename CHR ''.'' \<noteq> 1 \<Longrightarrow>
   write_xml fuel e this out_dir simox_xml_filename w = (Exits MalformedOutputName, w)"
  by (simp add: write_xml_def length_iter_split)

theorem write_xml_malformed_output_name_witness:
  "count_list ''hand'' CHR ''.'' \<noteq> 1 \<and>
   write_xml 3 quiet_env dms_hand ''/tmp/out'' ''hand'' fresh_world
     = (Exits MalformedOutputName, fresh_world)"
  using write_xml_malformed_output_name [of "''hand''" 3 quiet_env dms_hand "''/tmp/out''" fresh_world]
  by simp

subsection \<open>The mesh conversion\<close>



lemma convert_mesh_no_prefix:
  "str_find urdf_filename ''package://'' = None \<Longrightarrow>
   convert_mesh e dir urdf_filename w = (Exits MalformedMeshReference, w)"
  by (simp add: convert_mesh_def)

lemma convert_mesh_too_short:
  "str_find urdf_filename ''package://'' = Some pos1 \<Longrightarrow>
   count_list (erase urdf_filename pos1 (length ''package://'')) CHR ''/'' = 0 \<Longrightarrow>
   convert_mesh e dir urdf_filename w = (Exits MalformedMeshReference, w)"
  by (simp add: convert_mesh_def length_iter_split Let_def)

lemma hd_iter_split: "hd (iter_split s sep) = takeWhile (\<lambda>c. c \<noteq> sep) s"
  by (induction s) (auto split: list.splits simp: iter_split_not_Nil)

lemma tl_iter_split:
  "concat (map (\<lambda>t. sep # t) (tl (iter_split s sep))) = dropWhile (\<lambda>c. c \<noteq> sep) s"
proof (induction s)
  case Nil
  show ?case by simp
next
  case (Cons c cs)
  show ?case
  proof (cases "c = sep")
    case True
    have "concat (map (\<lambda>t. sep # t) (iter_split cs sep)) = sep # cs"
    proof -
      have "iter_split cs sep = hd (iter_split cs sep) # tl (iter_split cs sep)"
        by (simp add: iter_split_not_Nil)
      then have "concat (map (\<lambda>t. sep # t) (iter_split cs sep))
          = sep # hd (iter_split cs sep) @ concat (map (\<lambda>t. sep # t) (tl (iter_split cs sep)))"
        by (metis concat.simps(2) list.simps(9) append_Cons)
      then show ?thesis by (simp add: hd_iter_split Cons.IH)
    qed
    with True show ?thesis by simp
  next
    case False
    with Cons show ?thesis by (auto split: list.splits)
  qed
qed

text \<open>
  The loop over the tokens leaves out the first one, and every other one whose index is a
  multiple of 65536, where the counter is zero again. With fewer than 65536 slashes it
  gives the path below the directory of the package.
\<close>

lemma append_tokens_join:
  "n \<noteq> 0 \<Longrightarrow> unat n + length ts \<le> 65536 \<Longrightarrow>
   append_tokens n acc ts = acc @ concat (map (\<lambda>t. CHR ''/'' # t) ts)"
proof (induction ts arbitrary: n acc)
  case Nil
  show ?case by simp
next
  case (Cons t rest)
  show ?case
  proof (cases rest)
    case Nil
    with Cons.prems show ?thesis by simp
  next
    case (Cons r rs)
    with Cons.prems have u: "unat n + 1 < 65536" by simp
    then have "unat (n + 1) = unat n + 1"
      by (simp add: unat_word_ariths)
    moreover from this have "n + 1 \<noteq> 0"
      by (metis add_is_0 unat_0 zero_neq_one)
    ultimately have "append_tokens (n + 1) (acc @ ''/'' @ t) rest
        = (acc @ ''/'' @ t) @ concat (map (\<lambda>t. CHR ''/'' # t) rest)"
      using Cons.prems by (intro Cons.IH) simp_all
    with Cons.prems(1) show ?thesis by simp
  qed
qed

lemma append_tokens_split:
  assumes "count_list s CHR ''/'' < 65536"
  shows "append_tokens 0 acc (iter_split s CHR ''/'') = acc @ dropWhile (\<lambda>c. c \<noteq> CHR ''/'') s"
proof -
  have i: "iter_split s CHR ''/'' = hd (iter_split s CHR ''/'') # tl (iter_split s CHR ''/'')"
    by (simp add: iter_split_not_Nil)
  have "length (tl (iter_split s CHR ''/'')) = count_list s CHR ''/''"
    by (simp add: length_iter_split)
  with assms have "append_tokens 1 acc (tl (iter_split s CHR ''/''))
      = acc @ concat (map (\<lambda>t. CHR ''/'' # t) (tl (iter_split s CHR ''/'')))"
    by (intro append_tokens_join) simp_all
  then have "append_tokens 0 acc (hd (iter_split s CHR ''/'') # tl (iter_split s CHR ''/''))
      = acc @ dropWhile (\<lambda>c. c \<noteq> CHR ''/'') s"
    by (simp add: tl_iter_split)
  with i show ?thesis by simp
qed









text \<open>
  C4. The tool prints the marker in its second line: the conversion leaves the process
  from inside the \<^verbatim>\<open>getline\<close> loop, and the pipe that \<^verbatim>\<open>popen\<close> opened is still open in
  the final state. Only the path that returns calls \<^verbatim>\<open>pclose\<close>.
\<close>

theorem convert_mesh_leaves_pipe_open:
  "convert_mesh no_normals_env ''/tmp/out'' ''package://dms_description/meshes/base_link.STL'' fresh_world
     = (Exits MeshConversionFailed,
        \<lparr>commands = [''meshlabserver -i /opt/ros/share/dms_description/meshes/base_link.STL -o /tmp/out/meshes/base_link.wrl''],
         open_pipes = [''meshlabserver -i /opt/ros/share/dms_description/meshes/base_link.STL -o /tmp/out/meshes/base_link.wrl''],
         directories = [''/tmp/out/meshes''], written = []\<rparr>)"
  by (simp add: convert_mesh_def no_normals_env_def quiet_env_def fresh_world_def erase_def popen_def
      pclose_def create_directories_def Let_def c_str_def)

text \<open>
  C7. A reference that does not start with \<open>package://\<close> but has it further right is
  accepted: the prefix is searched with \<^verbatim>\<open>find\<close>, which looks at every position, it is
  cut out of the middle, and the tool is run.
\<close>

theorem convert_mesh_prefix_inside:
  "take (length ''package://'') ''x/package://dms_description/meshes/base_link.STL'' \<noteq> ''package://'' \<and>
   convert_mesh quiet_env ''/tmp/out'' ''x/package://dms_description/meshes/base_link.STL'' fresh_world
     = (Returns ''/tmp/out/meshes/base_link.wrl'',
        \<lparr>commands = [''meshlabserver -i /opt/ros/share/x/dms_description/meshes/base_link.STL -o /tmp/out/meshes/base_link.wrl''],
         open_pipes = [],
         directories = [''/tmp/out/meshes''], written = []\<rparr>)"
  by (simp add: convert_mesh_def quiet_env_def fresh_world_def erase_def popen_def
      pclose_def create_directories_def Let_def c_str_def)

subsection \<open>The actors\<close>

lemma set_map_insert: "fst ` set (map_insert k v m) = insert k (fst ` set m)"
proof (induction m)
  case Nil
  show ?case by simp
next
  case (Cons a m)
  obtain k' v' where "a = (k', v')" by (cases a)
  with Cons show ?case by (auto simp: insert_commute)
qed

lemma sorted_map_insert:
  "sorted (map fst m) \<Longrightarrow> distinct (map fst m) \<Longrightarrow>
   sorted (map fst (map_insert k v m)) \<and> distinct (map fst (map_insert k v m))"
proof (induction m)
  case Nil
  show ?case by simp
next
  case (Cons a m)
  obtain k' v' where a: "a = (k', v')" by (cases a)
  from Cons a show ?case
    using set_map_insert [of k v m] by (auto simp: image_iff)
qed

lemma map_of_None_iff: "map_of m k = None \<longleftrightarrow> k \<notin> fst ` set m"
  by (simp add: map_of_eq_None_iff)

lemma get_actors_loop_keys:
  assumes "\<forall>j \<in> set js. joint_name j \<noteq> []"
    and "sorted (map fst m)" and "distinct (map fst m)"
  shows "\<exists>m'. get_actors_loop sg js m = Returns m' \<and> sorted (map fst m') \<and> distinct (map fst m') \<and>
           fst ` set m' = fst ` set m \<union> (\<lambda>j. char_to_int sg (hd (joint_name j))) ` set js"
  using assms
proof (induction js arbitrary: m)
  case Nil
  then show ?case by simp
next
  case (Cons j js)
  then obtain c cs where n: "joint_name j = c # cs" by (cases "joint_name j") auto
  let ?m1 = "if map_of m (char_to_int sg c) = None then map_insert (char_to_int sg c) True m else m"
  have s1: "sorted (map fst ?m1) \<and> distinct (map fst ?m1)"
    using sorted_map_insert [OF Cons.prems(2,3)] Cons.prems(2,3) by simp
  have k1: "fst ` set ?m1 = insert (char_to_int sg c) (fst ` set m)"
    using set_map_insert [of "char_to_int sg c" True m] map_of_None_iff [of m "char_to_int sg c"]
    by auto
  from Cons.prems(1) have "\<forall>j \<in> set js. joint_name j \<noteq> []" by simp
  from Cons.IH [OF this, of ?m1] s1 obtain m' where
    "get_actors_loop sg js ?m1 = Returns m'" "sorted (map fst m')" "distinct (map fst m')"
    "fst ` set m' = fst ` set ?m1 \<union> (\<lambda>j. char_to_int sg (hd (joint_name j))) ` set js"
    by blast
  with n k1 show ?case by (auto simp: Let_def)
qed

lemma distinct_first_observed: "distinct (first_observed xs)"
  by (induction xs) (auto simp: distinct_removeAll)

lemma set_first_observed: "set (first_observed xs) = set xs"
  by (induction xs) auto

lemma sorted_first_observed: "sorted xs \<Longrightarrow> sorted (first_observed xs)"
proof (induction xs)
  case Nil
  show ?case by simp
next
  case (Cons x xs)
  then have "sorted (removeAll x (first_observed xs))"
    by (simp add: removeAll_filter_not_eq sorted_wrt_filter)
  with Cons show ?case by (auto simp: set_first_observed)
qed

lemma map_first_observed:
  "inj_on f (set xs) \<Longrightarrow> map f (first_observed xs) = first_observed (map f xs)"
proof (induction xs)
  case Nil
  show ?case by simp
next
  case (Cons x xs)
  then have "inj_on f (insert x (set (first_observed xs)))" by (simp add: set_first_observed)
  then have "map f (removeAll x (first_observed xs)) = removeAll (f x) (map f (first_observed xs))"
    by (rule map_removeAll_inj_on)
  with Cons show ?case by simp
qed

lemma int_to_char_char_to_int: "int_to_char (char_to_int sg c) = c"
proof -
  have "char_of ((of_char c - 256 :: int) mod 256) = char_of ((of_char c :: int) mod 256)"
    by (simp add: mod_diff_right_eq [symmetric] del: char_of_mod_256)
  then have "char_of ((of_char c - 256 :: int) mod 256) = c"
    by simp
  then show ?thesis
    by (simp add: int_to_char_def char_to_int_def del: char_of_mod_256)
qed

lemma hd_mono:
  fixes a b :: string
  shows "a \<le> b \<Longrightarrow> a \<noteq> [] \<Longrightarrow> b \<noteq> [] \<Longrightarrow> hd a \<le> hd b"
  by (cases a; cases b) auto

lemma sorted_first_chars:
  fixes names :: "string list"
  assumes "sorted names" and "\<forall>n \<in> set names. n \<noteq> []"
  shows "sorted (map hd names)"
proof -
  have "sorted_wrt (\<lambda>a b. hd a \<le> hd b) names"
    using assms(1)
    by (rule sorted_wrt_mono_rel [rotated]) (use assms(2) hd_mono in auto)
  then show ?thesis by (simp add: sorted_map)
qed

lemma actor_keys_of_sorted:
  assumes nonempty: "\<forall>j \<in> set js. joint_name j \<noteq> []"
    and sorted_names: "sorted (map joint_name js)"
    and ascii: "sg \<longrightarrow> (\<forall>j \<in> set js. (of_char (hd (joint_name j)) :: nat) < 128)"
  shows "\<exists>actors. get_actors_loop sg js [] = Returns actors \<and>
           map (int_to_char \<circ> fst) actors = first_observed (map (hd \<circ> joint_name) js)"
proof -
  let ?cs = "map (hd \<circ> joint_name) js"
  let ?g = "char_to_int sg"
  have cs: "sorted ?cs"
    using sorted_first_chars [of "map joint_name js"] nonempty sorted_names by (simp add: comp_def)
  have g: "?g c = int (of_char c)" if "c \<in> set ?cs" for c
  proof -
    from that ascii have "sg \<longrightarrow> (of_char c :: nat) < 128" by auto
    moreover have "(of_char c :: int) = int (of_char c)"
      by (simp add: of_nat_of_char)
    ultimately show ?thesis by (auto simp: char_to_int_def)
  qed
  have si: "sorted (map (\<lambda>c. int (of_char c)) ?cs)"
    using cs by (simp add: sorted_map less_eq_char_def sorted_wrt_map)
  have eq: "map ?g ?cs = map (\<lambda>c. int (of_char c)) ?cs"
    using g by (intro map_cong) auto
  have ks: "sorted (map ?g ?cs)"
    unfolding eq by (fact si)
  obtain m where m: "get_actors_loop sg js [] = Returns m" "sorted (map fst m)" "distinct (map fst m)"
    "fst ` set m = fst ` set [] \<union> (\<lambda>j. ?g (hd (joint_name j))) ` set js"
    using get_actors_loop_keys [OF nonempty, of "[]" sg] by auto
  have "set (map fst m) = set (first_observed (map ?g ?cs))"
    using m(4) by (auto simp: set_first_observed)
  then have keys: "map fst m = first_observed (map ?g ?cs)"
    using m(2,3) sorted_first_observed [OF ks] distinct_first_observed
    by (intro sorted_distinct_set_unique) auto
  have "inj ?g"
    by (rule inj_on_inverseI [where g = int_to_char]) (rule int_to_char_char_to_int)
  then have "inj_on ?g (set ?cs)" by (rule inj_on_subset) simp
  then have "first_observed (map ?g ?cs) = map ?g (first_observed ?cs)"
    by (rule map_first_observed [symmetric])
  with keys have "map (int_to_char \<circ> fst) m = map (int_to_char \<circ> ?g) (first_observed ?cs)"
    by (simp add: map_map [symmetric] del: map_map)
  also have "\<dots> = first_observed ?cs"
    by (simp add: comp_def int_to_char_char_to_int)
  finally show ?thesis using m(1) by blast
qed

text \<open>
  C5, as amended. For the object the constructor builds, whose joints are sorted by
  name, when every joint name is non-empty and, where \<^verbatim>\<open>char\<close> is signed, every first
  character is below 128: \<^verbatim>\<open>get_actors\<close> returns, and its keys read as characters are
  the distinct first characters of the joint names in the order in which each is first
  seen. With no joints the map is empty.
\<close>

theorem get_actors_first_observed:
  assumes "UrdfToSimoxXml ls dir = Returns this"
    and "\<forall>j \<in> set (joints this). joint_name j \<noteq> []"
    and "char_signed e \<longrightarrow> (\<forall>j \<in> set (joints this). (of_char (hd (joint_name j)) :: nat) < 128)"
  shows "\<exists>actors. get_actors e this = Returns actors \<and>
           map (int_to_char \<circ> fst) actors = first_observed (map (hd \<circ> joint_name) (joints this)) \<and>
           (joints this = [] \<longrightarrow> actors = [])"
proof -
  from assms(1) have "joints this = sort_key joint_name (concat (map child_joints ls))"
    by (auto simp: UrdfToSimoxXml_def split: if_splits)
  then have "sorted (map joint_name (joints this))" by simp
  from actor_keys_of_sorted [OF assms(2) this assms(3)] obtain actors where
    a: "get_actors e this = Returns actors"
      "map (int_to_char \<circ> fst) actors = first_observed (map (hd \<circ> joint_name) (joints this))"
    by (auto simp: get_actors_def)
  then have "joints this = [] \<longrightarrow> actors = []" by auto
  with a show ?thesis by blast
qed

theorem get_actors_first_observed_witness:
  "UrdfToSimoxXml accent_links ''/tmp/out'' = Returns accent_hand \<and>
   (\<exists>actors. get_actors (quiet_env\<lparr>char_signed := False\<rparr>) accent_hand = Returns actors \<and>
      map (int_to_char \<circ> fst) actors = [CHR ''i'', CHR 0xC3])"
proof -
  have c: "UrdfToSimoxXml accent_links ''/tmp/out'' = Returns accent_hand"
    by (simp add: UrdfToSimoxXml_def accent_links_def accent_hand_def plain_link_def plain_joint_def)
  have n: "\<forall>j \<in> set (joints accent_hand). joint_name j \<noteq> []"
    by (simp add: accent_hand_def plain_joint_def)
  have a: "char_signed (quiet_env\<lparr>char_signed := False\<rparr>) \<longrightarrow>
           (\<forall>j \<in> set (joints accent_hand). (of_char (hd (joint_name j)) :: nat) < 128)"
    by simp
  have f: "first_observed (map (hd \<circ> joint_name) (joints accent_hand)) = [CHR ''i'', CHR 0xC3]"
    by (simp add: accent_hand_def plain_joint_def)
  from get_actors_first_observed [OF c n a] obtain actors where
    g: "get_actors (quiet_env\<lparr>char_signed := False\<rparr>) accent_hand = Returns actors"
      "map (int_to_char \<circ> fst) actors = first_observed (map (hd \<circ> joint_name) (joints accent_hand))"
    by blast
  from g(2) have "map (int_to_char \<circ> fst) actors = [CHR ''i'', CHR 0xC3]"
    unfolding f .
  with g(1) c show ?thesis
    by (intro conjI exI [of _ actors]) simp_all
qed

text \<open>
  C5 as stated fails where \<^verbatim>\<open>char\<close> is signed: the first byte of the accented name is
  195, its key is -61, and the map, which is ordered by its keys, gives it before the
  key 105 of \<open>i\<close>, although \<open>index\<close> is the first name of the sorted list.
\<close>

theorem get_actors_signed_char_order:
  "UrdfToSimoxXml accent_links ''/tmp/out'' = Returns accent_hand \<and>
   char_signed quiet_env \<and>
   map joint_name (joints accent_hand) = [''index'', CHR 0xC3 # CHR 0xA9 # ''paule''] \<and>
   get_actors quiet_env accent_hand = Returns [(- 61, True), (105, True)] \<and>
   map (int_to_char \<circ> fst) [(- 61, True), (105, True)] = [CHR 0xC3, CHR ''i''] \<and>
   first_observed (map (hd \<circ> joint_name) (joints accent_hand)) = [CHR ''i'', CHR 0xC3]"
proof -
  have "int_to_char (- 61) = CHR 0xC3" and "int_to_char 105 = CHR ''i''"
    by code_simp+
  moreover have "UrdfToSimoxXml accent_links ''/tmp/out'' = Returns accent_hand"
    by (simp add: UrdfToSimoxXml_def accent_links_def accent_hand_def plain_link_def plain_joint_def)
  moreover have "get_actors quiet_env accent_hand = Returns [(- 61, True), (105, True)]"
    by (simp add: get_actors_def accent_hand_def plain_joint_def quiet_env_def char_to_int_def)
  moreover have "first_observed (map (hd \<circ> joint_name) (joints accent_hand)) = [CHR ''i'', CHR 0xC3]"
    by (simp add: accent_hand_def plain_joint_def)
  ultimately show ?thesis
    by (simp add: accent_hand_def plain_joint_def quiet_env_def)
qed

subsection \<open>Reading the nodes that are built\<close>

lemma subnodes_empty [simp]: "subnodes k empty_ptree = []"
  by (simp add: subnodes_def empty_ptree_def)

lemma attr_empty [simp]: "attr empty_ptree a = None"
  by (simp add: attr_def)

lemma data_add_child [simp]: "data (add_child t k c) = data t"
  by (simp add: add_child_def)

lemma subnodes_add_child [simp]:
  "subnodes k (add_child t k' c) = subnodes k t @ (if k = k' then [c] else [])"
  by (simp add: subnodes_def add_child_def)

lemma attr_add_child [simp]: "k \<noteq> ''<xmlattr>'' \<Longrightarrow> attr (add_child t k c) a = attr t a"
  by (simp add: attr_def)

lemma filter_modify_child_other:
  "k \<noteq> k' \<Longrightarrow> filter (\<lambda>kc. fst kc = k) (modify_child k' f cs) = filter (\<lambda>kc. fst kc = k) cs"
  by (induction cs) auto

lemma filter_modify_child_same:
  "map snd (filter (\<lambda>kc. fst kc = k) (modify_child k f cs)) =
     (case map snd (filter (\<lambda>kc. fst kc = k) cs) of
        [] \<Rightarrow> [f empty_ptree]
      | x # xs \<Rightarrow> f x # xs)"
  by (induction cs) auto

lemma iter_split_no_sep: "sep \<notin> set s \<Longrightarrow> iter_split s sep = [s]"
  by (induction s) auto

lemma iter_split_append:
  "sep \<notin> set s \<Longrightarrow> iter_split (s @ sep # r) sep = s # iter_split r sep"
  by (induction s) auto

lemma put_attr_keys:
  "CHR ''.'' \<notin> set a \<Longrightarrow>
   put t (''<xmlattr>.'' @ a) v =
     PTree (data t) (modify_child ''<xmlattr>'' (put_keys [a] v) (children t))"
  using iter_split_append [of "CHR ''.''" "''<xmlattr>''" a] iter_split_no_sep [of "CHR ''.''" a]
  by (simp add: put_def)

lemma put_plain_keys:
  "CHR ''.'' \<notin> set k \<Longrightarrow> put t k v = PTree (data t) (modify_child k (put_keys [] v) (children t))"
  by (simp add: put_def iter_split_no_sep)

lemma subnodes_put_attr_raw:
  assumes "CHR ''.'' \<notin> set a" and "k \<noteq> ''<xmlattr>''"
  shows "subnodes k (put t (''<xmlattr>.'' @ a) v) = subnodes k t"
  unfolding put_attr_keys [OF assms(1)] using assms(2)
  by (simp add: subnodes_def filter_modify_child_other)

lemma attr_put_attr_raw:
  assumes "CHR ''.'' \<notin> set a"
  shows "attr (put t (''<xmlattr>.'' @ a) v) a' = (if a' = a then Some v else attr t a')"
  unfolding put_attr_keys [OF assms]
  by (auto simp: attr_def subnodes_def filter_modify_child_same filter_modify_child_other
      empty_ptree_def split: list.splits)

lemma data_put_attr_raw:
  assumes "CHR ''.'' \<notin> set a"
  shows "data (put t (''<xmlattr>.'' @ a) v) = data t"
  unfolding put_attr_keys [OF assms] by simp

lemma subnodes_put_plain:
  assumes "CHR ''.'' \<notin> set k" and "k' \<noteq> k"
  shows "subnodes k' (put t k v) = subnodes k' t"
  unfolding put_plain_keys [OF assms(1)] using assms(2)
  by (simp add: subnodes_def filter_modify_child_other)

lemma attr_put_plain:
  "CHR ''.'' \<notin> set k \<Longrightarrow> k \<noteq> ''<xmlattr>'' \<Longrightarrow> attr (put t k v) a = attr t a"
  by (simp add: attr_def subnodes_put_plain)

lemmas subnodes_put_attr [simp] = subnodes_put_attr_raw [unfolded append_Cons append_Nil]
lemmas attr_put_attr [simp] = attr_put_attr_raw [unfolded append_Cons append_Nil]
lemmas data_put_attr [simp] = data_put_attr_raw [unfolded append_Cons append_Nil]

lemma attr_add_child_references [simp]:
  "attr (add_child_references t js) a = attr t a"
  by (induction js arbitrary: t) auto

lemma subnodes_add_child_references:
  "subnodes k (add_child_references t js) =
     subnodes k t @
     (if k = ''Child'' then map (\<lambda>j. put empty_ptree ''<xmlattr>.name'' (joint_name j)) js else [])"
  by (induction js arbitrary: t) auto

lemma and_then_Returns:
  "and_then r f = (Returns b, w') \<longleftrightarrow> (\<exists>a w1. r = (Returns a, w1) \<and> f a w1 = (Returns b, w'))"
  by (cases r; cases "fst r") (auto simp: and_then_def)

lemma build_link_node_matches:
  assumes "build_link_node e dir l w = (Returns n, w')"
  shows "matches (LinkItem l) n"
  using assms
  by (auto simp: build_link_node_def Let_def and_then_Returns child_refs_def is_link_node_def
      is_joint_node_def subnodes_add_child_references comp_def
      split: option.splits Geometry.splits)

lemma getLink_Some: "getLink ls nm = Some c \<Longrightarrow> c \<in> set ls \<and> link_name c = nm"
  by (auto simp: getLink_def find_Some_iff)

lemma build_joint_node_matches:
  assumes "build_joint_node e ls j = Returns (n, c)"
  shows "matches (JointItem j) n \<and> getLink ls (child_link_name j) = Some c"
  using assms
  by (auto simp: build_joint_node_def Let_def set_joint_limits_node_def child_refs_def
      is_link_node_def is_joint_node_def getLink_Some
      split: option.splits outcome.splits if_splits)

subsection \<open>The emitter follows the walk\<close>

lemma visit_Suc: "visit (Suc n) ls l = LinkItem l # concat (map (visit_joint n ls) (child_joints l))"
proof -
  have "visit_joint n ls =
      (\<lambda>j. JointItem j # (case getLink ls (child_link_name j) of None \<Rightarrow> [] | Some c \<Rightarrow> visit n ls c))"
    by (rule ext) (simp add: visit_joint_def)
  then show ?thesis by simp
qed

declare visit.simps(2) [simp del]

lemma appended_Nil [simp]: "appended h [] = h"
  by (cases h) (simp add: appended_def)

lemma appended_add_child: "appended (add_child h ''RobotNode'' n) nodes = appended h (n # nodes)"
  by (simp add: appended_def add_child_def)

lemma appended_appended: "appended (appended h xs) ys = appended h (xs @ ys)"
  by (simp add: appended_def)

lemma written_convert_mesh: "written (snd (convert_mesh e dir fn w)) = written w"
  by (simp add: convert_mesh_def Let_def popen_def pclose_def create_directories_def
      split: option.splits outcome.splits)

lemma written_and_then:
  assumes "written (snd r) = x" and "\<And>a w1. written (snd (f a w1)) = written w1"
  shows "written (snd (and_then r f)) = x"
  using assms by (cases r; cases "fst r") (auto simp: and_then_def)

lemma written_build_link_node: "written (snd (build_link_node e dir l w)) = written w"
  unfolding build_link_node_def Let_def
  by (auto intro!: written_and_then written_convert_mesh split: option.splits Geometry.splits)

lemma emitted_matches: "emitted e dir ls it n \<Longrightarrow> matches it n"
  by (cases it) (auto dest: build_link_node_matches build_joint_node_matches)

lemma emit_visit:
  "add_link_node f e dir ls h l w = (Returns h', w') \<Longrightarrow>
     \<exists>nodes. h' = appended h nodes \<and> list_all2 (emitted e dir ls) (visit f ls l) nodes \<and>
       written w' = written w"
  "add_child_joints f e dir ls h js w = (Returns h', w') \<Longrightarrow>
     \<exists>nodes. h' = appended h nodes \<and>
       list_all2 (emitted e dir ls) (concat (map (visit_joint f ls) js)) nodes \<and>
       written w' = written w"
  "add_joint_node f e dir ls h j w = (Returns h', w') \<Longrightarrow>
     \<exists>nodes. h' = appended h nodes \<and> list_all2 (emitted e dir ls) (visit_joint f ls j) nodes \<and>
       written w' = written w"
proof (induction f e dir ls h l w and f e dir ls h js w and f e dir ls h j w
    arbitrary: h' w' and h' w' and h' w'
    rule: add_link_node_add_child_joints_add_joint_node.induct)
  case (1 e dir ls hand_node link w)
  then show ?case by simp
next
  case (2 n e dir ls hand_node link w)
  from "2.prems" obtain ln w2 where
    b: "build_link_node e dir link w = (Returns ln, w2)"
    and r: "add_child_joints n e dir ls (add_child hand_node ''RobotNode'' ln) (child_joints link) w2
              = (Returns h', w')"
    by (auto simp: and_then_Returns)
  from "2.IH" [OF r] obtain nodes where
    "h' = appended (add_child hand_node ''RobotNode'' ln) nodes"
    "list_all2 (emitted e dir ls) (concat (map (visit_joint n ls) (child_joints link))) nodes"
    "written w' = written w2"
    by blast
  moreover from b have "emitted e dir ls (LinkItem link) ln" by auto
  moreover from written_build_link_node [of e dir link w] b have "written w2 = written w" by simp
  ultimately have
    "h' = appended hand_node (ln # nodes) \<and>
     list_all2 (emitted e dir ls) (visit (Suc n) ls link) (ln # nodes) \<and> written w' = written w"
    by (simp add: appended_add_child visit_Suc)
  then show ?case by blast
next
  case (3 n e dir ls hand_node w)
  then have "h' = appended hand_node [] \<and> w' = w" by simp
  then show ?case by auto
next
  case (4 n e dir ls hand_node child_joint rest w)
  from "4.prems" obtain h1 w1 where
    a: "add_joint_node n e dir ls hand_node child_joint w = (Returns h1, w1)"
    and r: "add_child_joints n e dir ls h1 rest w1 = (Returns h', w')"
    by (auto simp: and_then_Returns)
  from "4.IH"(1) [OF a] obtain xs where
    xs: "h1 = appended hand_node xs" "list_all2 (emitted e dir ls) (visit_joint n ls child_joint) xs"
      "written w1 = written w"
    by blast
  from "4.IH"(2) [OF r] obtain ys where
    ys: "h' = appended h1 ys" "list_all2 (emitted e dir ls) (concat (map (visit_joint n ls) rest)) ys"
      "written w' = written w1"
    by blast
  from xs ys have "h' = appended hand_node (xs @ ys) \<and>
      list_all2 (emitted e dir ls) (concat (map (visit_joint n ls) (child_joint # rest))) (xs @ ys) \<and>
      written w' = written w"
    by (simp add: appended_appended list_all2_appendI)
  then show ?case by blast
next
  case (5 n e dir ls hand_node child_joint w)
  from "5.prems" obtain jn c where
    b: "build_joint_node e ls child_joint = Returns (jn, c)"
    and r: "add_link_node n e dir ls (add_child hand_node ''RobotNode'' jn) c w = (Returns h', w')"
    by (auto split: outcome.splits)
  from build_joint_node_matches [OF b] have
    g: "getLink ls (child_link_name child_joint) = Some c"
    by simp
  from b have m: "emitted e dir ls (JointItem child_joint) jn" by auto
  from "5.IH" [OF b refl r] obtain nodes where
    "h' = appended (add_child hand_node ''RobotNode'' jn) nodes"
    "list_all2 (emitted e dir ls) (visit n ls c) nodes" "written w' = written w"
    by blast
  with m g have "h' = appended hand_node (jn # nodes) \<and>
      list_all2 (emitted e dir ls) (visit_joint n ls child_joint) (jn # nodes) \<and>
      written w' = written w"
    by (simp add: appended_add_child visit_joint_def)
  then show ?case by blast
qed

subsection \<open>The walk covers the tree\<close>

lemma kinematic_tree_iff:
  "kinematic_tree ls rt \<longleftrightarrow>
     rt \<in> set ls \<and>
     distinct (map link_name ls) \<and>
     distinct (map joint_name (all_joints ls)) \<and>
     distinct (map child_link_name (all_joints ls)) \<and>
     set (map child_link_name (all_joints ls)) \<subseteq> set (map link_name ls) - {link_name rt} \<and>
     (\<forall>l \<in> set ls. climb (length ls) ls (link_name rt) (link_name l) \<noteq> None)"
  by (simp add: kinematic_tree_def list_all_iff)

lemma getLink_iff:
  "distinct (map link_name ls) \<Longrightarrow> getLink ls nm = Some l \<longleftrightarrow> l \<in> set ls \<and> link_name l = nm"
proof (induction ls)
  case Nil
  show ?case by (simp add: getLink_def)
next
  case (Cons a ls)
  then show ?case by (auto simp: getLink_def)
qed

lemma parent_link_child:
  assumes "distinct (map child_link_name (all_joints ls))"
    and "u \<in> set ls" and "j \<in> set (child_joints u)"
  shows "parent_link ls (child_link_name j) = Some u"
  using assms
proof (induction ls)
  case Nil
  then show ?case by simp
next
  case (Cons a ls)
  show ?case
  proof (cases "a = u")
    case True
    with Cons.prems(3) show ?thesis by (simp add: parent_link_def)
  next
    case False
    with Cons.prems(2) have u: "u \<in> set ls" by simp
    with Cons.prems(3) have "child_link_name j \<in> set (map child_link_name (all_joints ls))"
      by (auto simp: all_joints_def)
    with Cons.prems(1) have "child_link_name j \<notin> set (map child_link_name (child_joints a))"
      by (auto simp: all_joints_def)
    moreover from Cons.prems(1) have "distinct (map child_link_name (all_joints ls))"
      by (simp add: all_joints_def)
    ultimately show ?thesis
      using Cons.IH [OF _ u Cons.prems(3)] by (simp add: parent_link_def)
  qed
qed

lemma climb_mono: "climb k ls r m = Some P \<Longrightarrow> climb (Suc k) ls r m = Some P"
proof (induction k arbitrary: m P)
  case 0
  then show ?case by (auto split: if_splits)
next
  case (Suc k)
  show ?case
  proof (cases "m = r")
    case True
    with Suc.prems show ?thesis by simp
  next
    case False
    with Suc.prems obtain p Q where
      p: "parent_link ls m = Some p" and q: "climb k ls r (link_name p) = Some Q" and P: "P = m # Q"
      by (auto split: option.splits)
    from Suc.IH [OF q] p P False show ?thesis by simp
  qed
qed

lemma climb_mono_add: "climb k ls r m = Some P \<Longrightarrow> climb (k + d) ls r m = Some P"
  by (induction d) (auto dest: climb_mono simp del: climb.simps)

lemma climb_mono_le: "climb k ls r m = Some P \<Longrightarrow> k \<le> k' \<Longrightarrow> climb k' ls r m = Some P"
  using climb_mono_add [of k ls r m P "k' - k"] by simp

lemma climb_shape:
  "climb k ls r m = Some P \<Longrightarrow> P \<noteq> [] \<and> hd P = m \<and> length P \<le> Suc k"
proof (induction k arbitrary: m P)
  case 0
  then show ?case by (auto split: if_splits)
next
  case (Suc k)
  then show ?case by (fastforce split: if_splits option.splits)
qed

lemma climb_suffix:
  "climb k ls r m = Some P \<Longrightarrow> a \<in> set P \<Longrightarrow> \<exists>Q pre. climb k ls r a = Some Q \<and> P = pre @ Q"
proof (induction k arbitrary: m P)
  case 0
  then show ?case by (auto split: if_splits)
next
  case (Suc k)
  show ?case
  proof (cases "m = r")
    case True
    with Suc.prems show ?thesis by auto
  next
    case False
    with Suc.prems(1) obtain p Q where
      p: "parent_link ls m = Some p" and q: "climb k ls r (link_name p) = Some Q" and P: "P = m # Q"
      by (auto split: option.splits)
    show ?thesis
    proof (cases "a = m")
      case True
      with Suc.prems(1) have "climb (Suc k) ls r a = Some P \<and> P = [] @ P" by simp
      then show ?thesis by blast
    next
      case False
      with Suc.prems(2) P have "a \<in> set Q" by simp
      from Suc.IH [OF q this] obtain Q' pre where "climb k ls r a = Some Q'" "Q = pre @ Q'"
        by blast
      with P have "climb (Suc k) ls r a = Some Q' \<and> P = (m # pre) @ Q'"
        by (simp add: climb_mono del: climb.simps)
      then show ?thesis by blast
    qed
  qed
qed

lemma link_items_simps [simp]:
  "link_items [] = []"
  "link_items (LinkItem l # rest) = l # link_items rest"
  "link_items (JointItem j # rest) = link_items rest"
  "link_items (xs @ ys) = link_items xs @ link_items ys"
  by (simp_all add: link_items_def)

lemma joint_items_simps [simp]:
  "joint_items [] = []"
  "joint_items (LinkItem l # rest) = joint_items rest"
  "joint_items (JointItem j # rest) = j # joint_items rest"
  "joint_items (xs @ ys) = joint_items xs @ joint_items ys"
  by (simp_all add: joint_items_def)

lemma link_items_concat: "link_items (concat xss) = concat (map link_items xss)"
  by (induction xss) auto

lemma joint_items_concat: "joint_items (concat xss) = concat (map joint_items xss)"
  by (induction xss) auto

lemma route_link:
  assumes "kinematic_tree ls rt" and "l \<in> set ls"
  shows "climb (length ls) ls (link_name rt) (link_name l) = Some (route ls rt (link_name l))"
    and "route ls rt (link_name l) \<noteq> []"
    and "hd (route ls rt (link_name l)) = link_name l"
    and "length (route ls rt (link_name l)) \<le> Suc (length ls)"
proof -
  from assms obtain P where P: "climb (length ls) ls (link_name rt) (link_name l) = Some P"
    by (auto simp: kinematic_tree_iff)
  then have r: "route ls rt (link_name l) = P" by (simp add: route_def)
  from P r show "climb (length ls) ls (link_name rt) (link_name l) = Some (route ls rt (link_name l))"
    by simp
  from climb_shape [OF P] r show "route ls rt (link_name l) \<noteq> []"
    "hd (route ls rt (link_name l)) = link_name l"
    "length (route ls rt (link_name l)) \<le> Suc (length ls)"
    by simp_all
qed

lemma route_child:
  assumes t: "kinematic_tree ls rt" and u: "u \<in> set ls" and j: "j \<in> set (child_joints u)"
  shows "\<exists>c. getLink ls (child_link_name j) = Some c \<and> c \<in> set ls \<and>
           link_name c = child_link_name j \<and>
           route ls rt (link_name c) = link_name c # route ls rt (link_name u)"
proof -
  from u j have "child_link_name j \<in> set (map child_link_name (all_joints ls))"
    by (auto simp: all_joints_def)
  with t have n: "child_link_name j \<in> set (map link_name ls)" and nr: "child_link_name j \<noteq> link_name rt"
    by (auto simp: kinematic_tree_iff)
  from n obtain c where c: "c \<in> set ls" "link_name c = child_link_name j" by auto
  from t have d: "distinct (map link_name ls)" by (simp add: kinematic_tree_iff)
  from c have g: "getLink ls (child_link_name j) = Some c" by (simp add: getLink_iff [OF d])
  from u obtain k where k: "length ls = Suc k" by (cases ls) auto
  from t have "distinct (map child_link_name (all_joints ls))" by (simp add: kinematic_tree_iff)
  from parent_link_child [OF this u j] have p: "parent_link ls (link_name c) = Some u"
    by (simp add: c)
  from route_link(1) [OF t c(1)] k nr c(2) p obtain Q where
    q: "climb k ls (link_name rt) (link_name u) = Some Q"
    and r: "route ls rt (link_name c) = link_name c # Q"
    by (auto split: option.splits)
  from climb_mono [OF q] k have "climb (length ls) ls (link_name rt) (link_name u) = Some Q"
    by simp
  then have "route ls rt (link_name u) = Q" by (simp add: route_def)
  with r g c show ?thesis by simp
qed

lemma route_suffix:
  assumes t: "kinematic_tree ls rt" and m: "m \<in> set ls" and a: "a \<in> set ls"
    and i: "link_name a \<in> set (route ls rt (link_name m))"
  shows "\<exists>pre. route ls rt (link_name m) = pre @ route ls rt (link_name a)"
proof -
  from climb_suffix [OF route_link(1) [OF t m] i] obtain Q pre where
    "climb (length ls) ls (link_name rt) (link_name a) = Some Q"
    "route ls rt (link_name m) = pre @ Q"
    by blast
  moreover from this(1) have "route ls rt (link_name a) = Q" by (simp add: route_def)
  ultimately show ?thesis by blast
qed

lemma link_items_visit_Suc:
  "link_items (visit (Suc n) ls l) =
     l # concat (map (\<lambda>j. link_items (visit_joint n ls j)) (child_joints l))"
  by (simp add: visit_Suc link_items_concat comp_def)

lemma link_items_visit_joint:
  "link_items (visit_joint n ls j) =
     (case getLink ls (child_link_name j) of None \<Rightarrow> [] | Some c \<Rightarrow> link_items (visit n ls c))"
  by (simp add: visit_joint_def split: option.splits)

lemma visited_below:
  assumes t: "kinematic_tree ls rt"
  shows "l \<in> set ls \<Longrightarrow> x \<in> set (link_items (visit f ls l)) \<Longrightarrow>
         x \<in> set ls \<and> (\<exists>pre. route ls rt (link_name x) = pre @ route ls rt (link_name l))"
proof (induction f arbitrary: l)
  case 0
  then show ?case by simp
next
  case (Suc n)
  show ?case
  proof (cases "x = l")
    case True
    with Suc.prems(1) show ?thesis by simp
  next
    case False
    with Suc.prems(2) obtain j where j: "j \<in> set (child_joints l)"
      and x: "x \<in> set (link_items (visit_joint n ls j))"
      by (auto simp: link_items_visit_Suc)
    from route_child [OF t Suc.prems(1) j] obtain c where
      c: "getLink ls (child_link_name j) = Some c" "c \<in> set ls"
        "route ls rt (link_name c) = link_name c # route ls rt (link_name l)"
      by blast
    from x c(1) have "x \<in> set (link_items (visit n ls c))" by (simp add: link_items_visit_joint)
    from Suc.IH [OF c(2) this] obtain pre where
      "x \<in> set ls" "route ls rt (link_name x) = pre @ route ls rt (link_name c)"
      by blast
    with c(3) have "x \<in> set ls \<and> route ls rt (link_name x) = (pre @ [link_name c]) @ route ls rt (link_name l)"
      by simp
    then show ?thesis by blast
  qed
qed

lemma distinct_concat_map_key:
  assumes "distinct (map key js)"
    and "\<And>j. j \<in> set js \<Longrightarrow> distinct (g j)"
    and "\<And>j j' x. j \<in> set js \<Longrightarrow> j' \<in> set js \<Longrightarrow> x \<in> set (g j) \<Longrightarrow> x \<in> set (g j') \<Longrightarrow>
           key j = key j'"
  shows "distinct (concat (map g js))"
  using assms
proof (induction js)
  case Nil
  show ?case by simp
next
  case (Cons j js)
  have "set (g j) \<inter> set (concat (map g js)) = {}"
  proof (rule ccontr)
    assume "set (g j) \<inter> set (concat (map g js)) \<noteq> {}"
    then obtain x j' where "x \<in> set (g j)" "j' \<in> set js" "x \<in> set (g j')" by auto
    with Cons.prems(3) [of j j' x] have "key j = key j'" by simp
    with \<open>j' \<in> set js\<close> Cons.prems(1) show False by auto
  qed
  moreover have "distinct (concat (map g js))"
    using Cons.prems by (intro Cons.IH) auto
  ultimately show ?case using Cons.prems(2) [of j] by simp
qed

lemma distinct_child_names:
  assumes "kinematic_tree ls rt" and "l \<in> set ls"
  shows "distinct (map child_link_name (child_joints l))"
proof -
  from assms(1) have "distinct (concat (map (map child_link_name \<circ> child_joints) ls))"
    by (simp add: kinematic_tree_iff all_joints_def map_concat)
  with assms(2) show ?thesis by (auto simp: distinct_concat_iff)
qed

lemma distinct_visited:
  assumes t: "kinematic_tree ls rt"
  shows "l \<in> set ls \<Longrightarrow> distinct (link_items (visit f ls l))"
proof (induction f arbitrary: l)
  case 0
  show ?case by simp
next
  case (Suc n)
  let ?g = "\<lambda>j. link_items (visit_joint n ls j)"
  have below: "\<exists>pre. route ls rt (link_name x) = pre @ [child_link_name j] @ route ls rt (link_name l)"
    if "j \<in> set (child_joints l)" "x \<in> set (?g j)" for j x
  proof -
    from route_child [OF t Suc.prems that(1)] obtain c where
      c: "getLink ls (child_link_name j) = Some c" "c \<in> set ls" "link_name c = child_link_name j"
        "route ls rt (link_name c) = link_name c # route ls rt (link_name l)"
      by blast
    from that(2) c(1) have "x \<in> set (link_items (visit n ls c))" by (simp add: link_items_visit_joint)
    from visited_below [OF t c(2) this] c(3,4) show ?thesis by auto
  qed
  have "l \<notin> set (concat (map ?g (child_joints l)))"
  proof
    assume "l \<in> set (concat (map ?g (child_joints l)))"
    then obtain j where "j \<in> set (child_joints l)" "l \<in> set (?g j)" by auto
    from below [OF this] obtain pre where
      "route ls rt (link_name l) = pre @ [child_link_name j] @ route ls rt (link_name l)"
      by blast
    then have "length (route ls rt (link_name l)) = length (pre @ [child_link_name j] @ route ls rt (link_name l))"
      by simp
    then show False by simp
  qed
  moreover have "distinct (concat (map ?g (child_joints l)))"
  proof (rule distinct_concat_map_key [where key = child_link_name])
    show "distinct (map child_link_name (child_joints l))"
      by (rule distinct_child_names [OF t Suc.prems])
  next
    fix j assume j: "j \<in> set (child_joints l)"
    from route_child [OF t Suc.prems j] obtain c where
      "getLink ls (child_link_name j) = Some c" "c \<in> set ls"
      by blast
    then show "distinct (?g j)" by (simp add: link_items_visit_joint Suc.IH)
  next
    fix j j' x
    assume "j \<in> set (child_joints l)" "j' \<in> set (child_joints l)" "x \<in> set (?g j)" "x \<in> set (?g j')"
    with below [of j x] below [of j' x] obtain pre pre' where
      "route ls rt (link_name x) = pre @ [child_link_name j] @ route ls rt (link_name l)"
      "route ls rt (link_name x) = pre' @ [child_link_name j'] @ route ls rt (link_name l)"
      by blast
    then have "pre @ [child_link_name j] @ route ls rt (link_name l)
        = pre' @ [child_link_name j'] @ route ls rt (link_name l)"
      by simp
    then have "pre @ [child_link_name j] = pre' @ [child_link_name j']"
      by (simp only: append_assoc [symmetric] append_same_eq)
    then show "child_link_name j = child_link_name j'" by simp
  qed
  ultimately show ?case by (simp add: link_items_visit_Suc)
qed

lemma joints_of_visited:
  "mset (joint_items (visit f ls l)) = mset (concat (map child_joints (link_items (visit f ls l))))"
proof (induction f arbitrary: l)
  case 0
  show ?case by simp
next
  case (Suc n)
  have step: "mset (joint_items (visit_joint n ls j))
      = {#j#} + mset (concat (map child_joints (link_items (visit_joint n ls j))))" for j
    by (simp add: visit_joint_def Suc.IH split: option.splits)
  have "mset (joint_items (concat (map (visit_joint n ls) js)))
      = mset js + mset (concat (map child_joints (link_items (concat (map (visit_joint n ls) js)))))" for js
    by (induction js) (simp_all add: step)
  then show ?case by (simp add: visit_Suc)
qed

lemma visited_children:
  assumes t: "kinematic_tree ls rt"
  shows "l \<in> set ls \<Longrightarrow> Suc (length ls) < f + length (route ls rt (link_name l)) \<Longrightarrow>
         u \<in> set (link_items (visit f ls l)) \<Longrightarrow> j \<in> set (child_joints u) \<Longrightarrow>
         getLink ls (child_link_name j) = Some c \<Longrightarrow> c \<in> set (link_items (visit f ls l))"
proof (induction f arbitrary: l)
  case 0
  then show ?case by simp
next
  case (Suc n)
  show ?case
  proof (cases "u = l")
    case True
    from Suc.prems(4) True have "j \<in> set (child_joints l)" by simp
    from route_child [OF t Suc.prems(1) this] Suc.prems(5) have
      c: "c \<in> set ls" "route ls rt (link_name c) = link_name c # route ls rt (link_name l)"
      by auto
    from route_link(4) [OF t c(1)] c(2) have "length (route ls rt (link_name l)) \<le> length ls"
      by simp
    with Suc.prems(2) obtain n' where "n = Suc n'" by (cases n) auto
    then have "c \<in> set (link_items (visit n ls c))" by (simp add: link_items_visit_Suc)
    then have "c \<in> set (link_items (visit_joint n ls j))"
      using Suc.prems(5) by (simp add: link_items_visit_joint)
    with Suc.prems(4) True show ?thesis by (auto simp: link_items_visit_Suc)
  next
    case False
    with Suc.prems(3) obtain j' where j': "j' \<in> set (child_joints l)"
      and u: "u \<in> set (link_items (visit_joint n ls j'))"
      by (auto simp: link_items_visit_Suc)
    from route_child [OF t Suc.prems(1) j'] obtain c' where
      c': "getLink ls (child_link_name j') = Some c'" "c' \<in> set ls"
        "route ls rt (link_name c') = link_name c' # route ls rt (link_name l)"
      by blast
    from u c'(1) have u': "u \<in> set (link_items (visit n ls c'))" by (simp add: link_items_visit_joint)
    from Suc.prems(2) c'(3) have "Suc (length ls) < n + length (route ls rt (link_name c'))"
      by simp
    from Suc.IH [OF c'(2) this u' Suc.prems(4,5)] have "c \<in> set (link_items (visit_joint n ls j'))"
      using c'(1) by (simp add: link_items_visit_joint)
    with j' show ?thesis by (auto simp: link_items_visit_Suc)
  qed
qed

lemma root_name:
  assumes "kinematic_tree ls rt" and "m \<in> set ls" and "link_name m = link_name rt"
  shows "m = rt"
proof -
  from assms(1) have "distinct (map link_name ls)" "rt \<in> set ls" by (simp_all add: kinematic_tree_iff)
  with assms(2,3) show ?thesis by (meson distinct_map inj_onD)
qed

lemma all_visited:
  assumes t: "kinematic_tree ls rt" and f: "length ls < f"
  shows "m \<in> set ls \<Longrightarrow> climb k ls (link_name rt) (link_name m) = Some P \<Longrightarrow>
         m \<in> set (link_items (visit f ls rt))"
proof (induction k arbitrary: m P)
  case 0
  from f obtain n where n: "f = Suc n" by (cases f) auto
  from 0 have "m = rt" using root_name [OF t] by (auto split: if_splits)
  with n show ?case by (simp add: link_items_visit_Suc)
next
  case (Suc k)
  from f obtain n where n: "f = Suc n" by (cases f) auto
  from t have rt: "rt \<in> set ls" by (simp add: kinematic_tree_iff)
  show ?case
  proof (cases "link_name m = link_name rt")
    case True
    with Suc.prems(1) have "m = rt" using root_name [OF t] by simp
    with n show ?thesis by (simp add: link_items_visit_Suc)
  next
    case False
    with Suc.prems(2) obtain p Q where
      p: "parent_link ls (link_name m) = Some p"
      and q: "climb k ls (link_name rt) (link_name p) = Some Q"
      by (auto split: option.splits)
    from p have pl: "p \<in> set ls" and "link_name m \<in> set (map child_link_name (child_joints p))"
      by (auto simp: parent_link_def find_Some_iff)
    then obtain j where j: "j \<in> set (child_joints p)" "child_link_name j = link_name m" by auto
    from t have "distinct (map link_name ls)" by (simp add: kinematic_tree_iff)
    from getLink_iff [OF this] Suc.prems(1) j(2) have g: "getLink ls (child_link_name j) = Some m"
      by simp
    have "climb (length ls) ls (link_name rt) (link_name rt) = Some [link_name rt]"
      by (cases "length ls") simp_all
    then have "route ls rt (link_name rt) = [link_name rt]" by (simp add: route_def)
    with f have "Suc (length ls) < f + length (route ls rt (link_name rt))" by simp
    from visited_children [OF t rt this Suc.IH [OF pl q] j(1) g] show ?thesis .
  qed
qed

lemma mset_concat_map_cong:
  "mset xs = mset ys \<Longrightarrow> mset (concat (map g xs)) = mset (concat (map g ys))"
proof -
  assume "mset xs = mset ys"
  then have "image_mset (\<lambda>x. mset (g x)) (mset xs) = image_mset (\<lambda>x. mset (g x)) (mset ys)"
    by simp
  then have "sum_mset (mset (map (\<lambda>x. mset (g x)) xs)) = sum_mset (mset (map (\<lambda>x. mset (g x)) ys))"
    by simp
  then have "sum_list (map (\<lambda>x. mset (g x)) xs) = sum_list (map (\<lambda>x. mset (g x)) ys)"
    by (simp only: sum_mset_sum_list)
  then show ?thesis by (simp add: mset_concat comp_def)
qed

lemma visit_covers:
  assumes t: "kinematic_tree ls rt" and f: "length ls < f"
  shows "mset (link_items (visit f ls rt)) = mset ls"
    and "mset (joint_items (visit f ls rt)) = mset (all_joints ls)"
proof -
  from t have rt: "rt \<in> set ls" and d: "distinct (map link_name ls)"
    by (simp_all add: kinematic_tree_iff)
  have "set (link_items (visit f ls rt)) = set ls"
  proof (intro equalityI subsetI)
    fix x assume "x \<in> set (link_items (visit f ls rt))"
    from visited_below [OF t rt this] show "x \<in> set ls" by simp
  next
    fix x assume x: "x \<in> set ls"
    from all_visited [OF t f x route_link(1) [OF t x]] show "x \<in> set (link_items (visit f ls rt))" .
  qed
  moreover from d have "distinct ls" by (simp add: distinct_map)
  ultimately show l: "mset (link_items (visit f ls rt)) = mset ls"
    using distinct_visited [OF t rt, of f] by (simp add: set_eq_iff_mset_eq_distinct)
  show "mset (joint_items (visit f ls rt)) = mset (all_joints ls)"
    unfolding joints_of_visited all_joints_def by (rule mset_concat_map_cong [OF l])
qed

subsection \<open>The emitter returns\<close>

lemma fst_convert_mesh: "fst (convert_mesh e dir fn w) = fst (convert_mesh e dir fn w')"
  by (simp add: convert_mesh_def Let_def split: option.splits outcome.splits)

lemma mesh_converts_Returns:
  "mesh_converts e dir fn \<Longrightarrow> \<exists>p w'. convert_mesh e dir fn w = (Returns p, w')"
proof -
  assume "mesh_converts e dir fn"
  then obtain p where "fst (convert_mesh e dir fn fresh_world) = Returns p"
    by (auto simp: mesh_converts_def split: outcome.splits)
  with fst_convert_mesh [of e dir fn w fresh_world] have "fst (convert_mesh e dir fn w) = Returns p"
    by simp
  then show ?thesis by (cases "convert_mesh e dir fn w") auto
qed

lemma build_link_node_returns:
  assumes "supported_link e dir l"
  shows "\<exists>n w'. build_link_node e dir l w = (Returns n, w')"
proof -
  from assms obtain vis fn where v: "visual l = Some vis" "geometry vis = MESH fn"
    and m: "mesh_converts e dir fn"
    by (auto simp: supported_link_def split: option.splits Geometry.splits)
  from mesh_converts_Returns [OF m] obtain p1 w1 where c1: "convert_mesh e dir fn w = (Returns p1, w1)"
    by blast
  from mesh_converts_Returns [OF m] obtain p2 w2 where c2: "convert_mesh e dir fn w1 = (Returns p2, w2)"
    by blast
  from v c1 c2 show ?thesis
    by (simp add: build_link_node_def Let_def and_then_def)
qed

lemma build_joint_node_returns:
  assumes "supported_joint j" and "getLink ls (child_link_name j) = Some c"
  shows "\<exists>n. build_joint_node e ls j = Returns (n, c)"
  using assms
  by (auto simp: supported_joint_def build_joint_node_def Let_def set_joint_limits_node_def)

lemma emit_returns:
  assumes t: "kinematic_tree ls rt" and s: "supported e dir ls"
  shows "l \<in> set ls \<Longrightarrow> Suc (length ls) < f + length (route ls rt (link_name l)) \<Longrightarrow>
           \<exists>h' w'. add_link_node f e dir ls h l w = (Returns h', w')"
    and "u \<in> set ls \<Longrightarrow> set js \<subseteq> set (child_joints u) \<Longrightarrow>
         length ls < f + length (route ls rt (link_name u)) \<Longrightarrow>
           \<exists>h' w'. add_child_joints f e dir ls h js w = (Returns h', w')"
    and "u \<in> set ls \<Longrightarrow> j \<in> set (child_joints u) \<Longrightarrow>
         length ls < f + length (route ls rt (link_name u)) \<Longrightarrow>
           \<exists>h' w'. add_joint_node f e dir ls h j w = (Returns h', w')"
  using t s
proof (induction f e dir ls h l w and f e dir ls h js w and f e dir ls h j w
    arbitrary: and u and u
    rule: add_link_node_add_child_joints_add_joint_node.induct)
  case (1 e dir ls hand_node link w)
  from route_link(4) [OF "1.prems"(3,1)] "1.prems"(2) show ?case by simp
next
  case (2 n e dir ls hand_node link w)
  from "2.prems"(1,4) have "supported_link e dir link"
    by (simp add: supported_def list_all_iff)
  from build_link_node_returns [OF this] obtain ln w2 where
    b: "build_link_node e dir link w = (Returns ln, w2)"
    by blast
  from "2.prems"(2) have "length ls < n + length (route ls rt (link_name link))" by simp
  from "2.IH" [OF "2.prems"(1) subset_refl this "2.prems"(3,4)] b
  show ?case by (simp add: and_then_def)
next
  case (3 n e dir ls hand_node w)
  show ?case by simp
next
  case (4 n e dir ls hand_node child_joint rest w)
  from "4.prems"(2) have j: "child_joint \<in> set (child_joints u)"
    and r: "set rest \<subseteq> set (child_joints u)"
    by simp_all
  from "4.IH"(1) [OF "4.prems"(1) j "4.prems"(3,4,5)] obtain h1 w1 where
    a: "add_joint_node n e dir ls hand_node child_joint w = (Returns h1, w1)"
    by blast
  from "4.IH"(2) [OF "4.prems"(1) r "4.prems"(3,4,5)] a
  show ?case by (simp add: and_then_def)
next
  case (5 n e dir ls hand_node child_joint w)
  from route_child [OF "5.prems"(4,1,2)] obtain c where
    c: "getLink ls (child_link_name child_joint) = Some c" "c \<in> set ls"
      "route ls rt (link_name c) = link_name c # route ls rt (link_name u)"
    by blast
  from "5.prems"(1,2,5) have "supported_joint child_joint"
    by (auto simp: supported_def list_all_iff all_joints_def)
  from build_joint_node_returns [OF this c(1)] obtain jn where
    b: "build_joint_node e ls child_joint = Returns (jn, c)"
    by blast
  from "5.prems"(3) c(3) have "Suc (length ls) < n + length (route ls rt (link_name c))" by simp
  from "5.IH" [OF b refl c(2) this "5.prems"(4,5)] b
  show ?case by simp
qed

subsection \<open>The written document\<close>

lemma subnodes_appended [simp]:
  "subnodes k (appended h nodes) = subnodes k h @ (if k = ''RobotNode'' then nodes else [])"
  by (induction nodes) (auto simp: appended_def subnodes_def)

lemma attr_appended [simp]: "attr (appended h nodes) a = attr h a"
  by (simp add: attr_def)

lemma preshape_loop_attr [simp]: "attr (preshape_loop t js) a = attr t a"
  by (induction js arbitrary: t) (auto simp: Let_def)

lemma preshape_loop_subnodes [simp]: "k \<noteq> ''Node'' \<Longrightarrow> subnodes k (preshape_loop t js) = subnodes k t"
  by (induction js arbitrary: t) (auto simp: Let_def)

lemma preshape_loop_members [simp]:
  "member_refs (preshape_loop t js) = member_refs t @ map (\<lambda>j. Some (joint_name j)) js"
  by (induction js arbitrary: t) (auto simp: Let_def member_refs_def)

lemma hand_joints_loop_attr [simp]: "attr (hand_joints_loop t js) a = attr t a"
  by (induction js arbitrary: t) auto

lemma hand_joints_loop_members [simp]:
  "member_refs (hand_joints_loop t js) = member_refs t @ map (\<lambda>j. Some (joint_name j)) js"
  by (induction js arbitrary: t) (auto simp: member_refs_def)

lemma actor_members_loop_Returns:
  "actor_members_loop c A names = Returns A' \<Longrightarrow>
     (\<forall>a. attr A' a = attr A a) \<and>
     member_refs A' = member_refs A @ map Some (filter (\<lambda>nm. hd nm = c) names) \<and>
     (\<forall>nm \<in> set names. nm \<noteq> [])"
proof (induction names arbitrary: A)
  case Nil
  then show ?case by simp
next
  case (Cons nm names)
  from Cons.prems obtain first_char cs where nm: "nm = first_char # cs"
    by (cases nm) auto
  show ?case
  proof (cases "c = first_char")
    case True
    let ?A1 = "add_child A ''Node''
      (put (put empty_ptree ''<xmlattr>.name'' nm) ''<xmlattr>.considerCollisions'' ''None'')"
    from Cons.prems nm True have "actor_members_loop c ?A1 names = Returns A'"
      by (simp add: Let_def)
    from Cons.IH [OF this] nm True show ?thesis by (auto simp: member_refs_def)
  next
    case False
    with Cons.prems nm have "actor_members_loop c A names = Returns A'" by simp
    from Cons.IH [OF this] nm False show ?thesis by auto
  qed
qed

lemma actors_loop_Returns:
  "actors_loop this E m = Returns E' \<Longrightarrow>
     (\<forall>a. attr E' a = attr E a) \<and>
     (\<forall>k. k \<noteq> ''Actor'' \<longrightarrow> subnodes k E' = subnodes k E) \<and>
     (\<exists>acts. subnodes ''Actor'' E' = subnodes ''Actor'' E @ acts \<and> list_all2 (actor_of this) m acts)"
proof (induction m arbitrary: E)
  case Nil
  then show ?case by simp
next
  case (Cons kv m)
  obtain k v where kv: "kv = (k, v)" by (cases kv)
  let ?A0 = "put (put (put empty_ptree ''<xmlattr>.name'' [int_to_char k]) ''<xmlcomment>''
                ''This is just a template. Please set values manually!'') ''<xmlcomment>''
                ''Note that considerCollisions = None, Actors, or All!''"
  from Cons.prems kv obtain A1 A2 where
    a1: "actor_members_loop (int_to_char k) ?A0 (map link_name (links this)) = Returns A1"
    and a2: "actor_members_loop (int_to_char k) A1 (map joint_name (joints this)) = Returns A2"
    and r: "actors_loop this (add_child E ''Actor'' A2) m = Returns E'"
    by (auto simp: Let_def split: outcome.splits)
  have "attr ?A0 ''name'' = Some [int_to_char k]" "member_refs ?A0 = []"
    by (simp_all add: attr_put_plain subnodes_put_plain member_refs_def)
  with actor_members_loop_Returns [OF a1] actor_members_loop_Returns [OF a2]
  have "actor_of this kv A2" by (simp add: actor_of_def kv)
  with Cons.IH [OF r] show ?case by auto
qed

lemma get_actors_loop_nonempty:
  "get_actors_loop sg js m = Returns m' \<Longrightarrow> \<forall>j \<in> set js. joint_name j \<noteq> []"
  by (induction js arbitrary: m) (auto simp: Let_def split: list.splits)

lemma add_endeffector_node_Returns:
  assumes "add_endeffector_node e this h hu hb ht hg bl = Returns h7"
  shows "\<exists>ef m pre st.
           h7 = add_child h ''Endeffector'' ef \<and>
           get_actors e this = Returns m \<and>
           attr ef ''base'' = Some hb \<and> attr ef ''tcp'' = Some ht \<and> attr ef ''gcp'' = Some hg \<and>
           subnodes ''Preshape'' ef = [pre] \<and>
           member_refs pre = map (\<lambda>j. Some (joint_name j)) (joints this) \<and>
           subnodes ''Static'' ef = [st] \<and> member_refs st = [Some bl] \<and>
           list_all2 (actor_of this) m (subnodes ''Actor'' ef)"
proof -
  let ?e5 = "put (put (put (put (put empty_ptree ''<xmlcomment>''
                 ''This node is for Simox (e.g., GraspPlanner in Simox)!'')
               ''<xmlattr>.name'' hu) ''<xmlattr>.base'' hb) ''<xmlattr>.tcp'' ht) ''<xmlattr>.gcp'' hg"
  let ?pre = "preshape_loop (put (put empty_ptree ''<xmlattr>.name'' ''Grasp Preshape'') ''<xmlcomment>''
                 ''This is just a template. Please set values manually!'') (joints this)"
  let ?st = "add_child empty_ptree ''Node'' (put empty_ptree ''<xmlattr>.name'' bl)"
  let ?e7 = "add_child (add_child ?e5 ''Preshape'' ?pre) ''Static'' ?st"
  from assms obtain m ef where
    m: "get_actors e this = Returns m" and a: "actors_loop this ?e7 m = Returns ef"
    and h: "h7 = add_child h ''Endeffector'' ef"
    by (auto simp: add_endeffector_node_def Let_def split: outcome.splits)
  have "member_refs (put (put empty_ptree ''<xmlattr>.name'' ''Grasp Preshape'') ''<xmlcomment>''
                 ''This is just a template. Please set values manually!'') = []"
    by (simp add: member_refs_def subnodes_put_plain)
  then have p: "member_refs ?pre = map (\<lambda>j. Some (joint_name j)) (joints this)"
    by simp
  have s: "member_refs ?st = [Some bl]" by (simp add: member_refs_def)
  from actors_loop_Returns [OF a] have
    "attr ef ''base'' = Some hb \<and> attr ef ''tcp'' = Some ht \<and> attr ef ''gcp'' = Some hg \<and>
     subnodes ''Preshape'' ef = [?pre] \<and> subnodes ''Static'' ef = [?st] \<and>
     list_all2 (actor_of this) m (subnodes ''Actor'' ef)"
    by (auto simp: subnodes_put_plain)
  with h m p s show ?thesis by blast
qed

lemma scaffold_nodes:
  "\<exists>base tcp gcp.
     subnodes ''RobotNode'' (scaffold fn bl) = [base, tcp, gcp] \<and>
     attr base ''name'' = Some (hand_lower fn @ ''_hand_base'') \<and>
     child_refs base = [Some (hand_lower fn @ ''_hand_tcp''), Some (hand_lower fn @ ''_hand_gcp''), Some bl] \<and>
     \<not> is_link_node base \<and> \<not> is_joint_node base \<and>
     attr tcp ''name'' = Some (hand_lower fn @ ''_hand_tcp'') \<and> child_refs tcp = [] \<and>
     \<not> is_link_node tcp \<and> \<not> is_joint_node tcp \<and>
     attr gcp ''name'' = Some (hand_lower fn @ ''_hand_gcp'') \<and> child_refs gcp = [] \<and>
     \<not> is_link_node gcp \<and> \<not> is_joint_node gcp"
  by (simp add: scaffold_def add_hand_base_node_def add_hand_tcp_node_def add_hand_gcp_node_def
      Let_def child_refs_def is_link_node_def is_joint_node_def attr_put_plain subnodes_put_plain)

lemma scaffold_attrs:
  "attr (scaffold fn bl) ''Type'' = Some (hand_upper fn)"
  "attr (scaffold fn bl) ''RootNode'' = Some (hand_lower fn @ ''_hand_base'')"
  "subnodes ''Endeffector'' (scaffold fn bl) = []"
  "subnodes ''RobotNodeSet'' (scaffold fn bl) = []"
  by (simp_all add: scaffold_def add_hand_base_node_def add_hand_tcp_node_def add_hand_gcp_node_def
      Let_def)

lemma write_xml_unfold:
  assumes "links this = first # others" and "length (iter_split fn CHR ''.'') = 2"
  shows "write_xml f e this out fn w =
     and_then (add_link_node f e (output_dir this) (links this) (scaffold fn (link_name first)) first w)
       (\<lambda>h6 w1.
          case add_endeffector_node e this h6 (hand_upper fn) (hand_lower fn @ ''_hand_base'')
                 (hand_lower fn @ ''_hand_tcp'') (hand_lower fn @ ''_hand_gcp'') (link_name first) of
            Returns h7 \<Rightarrow>
              (Returns (),
               w1\<lparr>written := written w1 @
                     [(out @ ''/'' @ fn,
                       add_child empty_ptree ''Robot''
                         (add_hand_joints_node this h7 (hand_upper fn)))]\<rparr>)
          | Exits err \<Rightarrow> (Exits err, w1)
          | OutOfFuel \<Rightarrow> (OutOfFuel, w1))"
  using assms
  by (simp add: write_xml_def Let_def scaffold_def hand_upper_def hand_lower_def
      cong: outcome.case_cong)

lemma write_xml_Returns:
  assumes "write_xml f e this out fn w = (Returns u, w')"
  shows "\<exists>first others nodes ef.
           links this = first # others \<and> count_list fn CHR ''.'' = 1 \<and>
           list_all2 (emitted e (output_dir this) (links this)) (visit f (links this) first) nodes \<and>
           add_endeffector_node e this (appended (scaffold fn (link_name first)) nodes) (hand_upper fn)
               (hand_lower fn @ ''_hand_base'') (hand_lower fn @ ''_hand_tcp'')
               (hand_lower fn @ ''_hand_gcp'') (link_name first)
             = Returns (add_child (appended (scaffold fn (link_name first)) nodes) ''Endeffector'' ef) \<and>
           written w' = written w @
             [(out @ ''/'' @ fn,
               add_child empty_ptree ''Robot''
                 (add_hand_joints_node this
                    (add_child (appended (scaffold fn (link_name first)) nodes) ''Endeffector'' ef)
                    (hand_upper fn)))]"
proof -
  from assms have n: "length (iter_split fn CHR ''.'') = 2"
    by (auto simp: write_xml_def Let_def split: if_splits)
  then have c: "count_list fn CHR ''.'' = 1" by (simp add: length_iter_split)
  from assms n obtain first others where l: "links this = first # others"
    by (cases "links this") (auto simp: write_xml_def Let_def)
  let ?s = "scaffold fn (link_name first)"
  from assms obtain h6 w1 where
    a: "add_link_node f e (output_dir this) (links this) ?s first w = (Returns h6, w1)"
    and r: "(case add_endeffector_node e this h6 (hand_upper fn) (hand_lower fn @ ''_hand_base'')
                 (hand_lower fn @ ''_hand_tcp'') (hand_lower fn @ ''_hand_gcp'') (link_name first) of
            Returns h7 \<Rightarrow>
              (Returns (),
               w1\<lparr>written := written w1 @
                     [(out @ ''/'' @ fn,
                       add_child empty_ptree ''Robot''
                         (add_hand_joints_node this h7 (hand_upper fn)))]\<rparr>)
          | Exits err \<Rightarrow> (Exits err, w1)
          | OutOfFuel \<Rightarrow> (OutOfFuel, w1)) = (Returns u, w')"
    unfolding write_xml_unfold [OF l n] and_then_Returns by blast
  from r obtain h7 where
    b: "add_endeffector_node e this h6 (hand_upper fn) (hand_lower fn @ ''_hand_base'')
              (hand_lower fn @ ''_hand_tcp'') (hand_lower fn @ ''_hand_gcp'') (link_name first)
            = Returns h7"
    and w: "w' = w1\<lparr>written := written w1 @
              [(out @ ''/'' @ fn,
                add_child empty_ptree ''Robot'' (add_hand_joints_node this h7 (hand_upper fn)))]\<rparr>"
    by (auto split: outcome.splits)
  from emit_visit(1) [OF a] obtain nodes where
    h6: "h6 = appended ?s nodes"
    and v: "list_all2 (emitted e (output_dir this) (links this)) (visit f (links this) first) nodes"
    and w1: "written w1 = written w"
    by blast
  from add_endeffector_node_Returns [OF b] obtain ef where h7: "h7 = add_child h6 ''Endeffector'' ef"
    by blast
  from l c v b h6 h7 w w1 show ?thesis by auto
qed

lemma actor_members_loop_total:
  "\<forall>nm \<in> set names. nm \<noteq> [] \<Longrightarrow> \<exists>A'. actor_members_loop c A names = Returns A'"
proof (induction names arbitrary: A)
  case Nil
  show ?case by simp
next
  case (Cons nm names)
  then obtain first_char cs where "nm = first_char # cs" by (cases nm) auto
  with Cons show ?case by (auto simp: Let_def)
qed

lemma actors_loop_total:
  assumes "\<forall>l \<in> set (links this). link_name l \<noteq> []" and "\<forall>j \<in> set (joints this). joint_name j \<noteq> []"
  shows "\<exists>E'. actors_loop this E m = Returns E'"
proof (induction m arbitrary: E)
  case Nil
  show ?case by simp
next
  case (Cons kv m)
  obtain k v where kv: "kv = (k, v)" by (cases kv)
  let ?A0 = "put (put (put empty_ptree ''<xmlattr>.name'' [int_to_char k]) ''<xmlcomment>''
                ''This is just a template. Please set values manually!'') ''<xmlcomment>''
                ''Note that considerCollisions = None, Actors, or All!''"
  from assms(1) obtain A1 where
    a1: "actor_members_loop (int_to_char k) ?A0 (map link_name (links this)) = Returns A1"
    using actor_members_loop_total [of "map link_name (links this)" "int_to_char k" ?A0] by auto
  from assms(2) obtain A2 where
    a2: "actor_members_loop (int_to_char k) A1 (map joint_name (joints this)) = Returns A2"
    using actor_members_loop_total [of "map joint_name (joints this)" "int_to_char k" A1] by auto
  from Cons [of "add_child E ''Actor'' A2"] a1 a2 kv show ?case by (simp add: Let_def)
qed

lemma add_endeffector_node_total:
  assumes "\<forall>l \<in> set (links this). link_name l \<noteq> []" and "\<forall>j \<in> set (joints this). joint_name j \<noteq> []"
  shows "\<exists>h7. add_endeffector_node e this h hu hb ht hg bl = Returns h7"
proof -
  from get_actors_loop_keys [OF assms(2), of "[]" "char_signed e"] obtain m where
    m: "get_actors e this = Returns m"
    by (auto simp: get_actors_def)
  from actors_loop_total [OF assms] m show ?thesis
    by (simp add: add_endeffector_node_def Let_def) (metis outcome.simps(9))
qed

lemma route_root:
  "route ls rt (link_name rt) = [link_name rt]"
proof -
  have "climb (length ls) ls (link_name rt) (link_name rt) = Some [link_name rt]"
    by (cases "length ls") simp_all
  then show ?thesis by (simp add: route_def)
qed

lemma supported_names:
  assumes "supported e dir ls"
  shows "\<forall>l \<in> set ls. link_name l \<noteq> []" and "\<forall>j \<in> set (all_joints ls). joint_name j \<noteq> []"
  using assms by (auto simp: supported_def list_all_iff supported_link_def supported_joint_def)

lemma constructed:
  assumes "UrdfToSimoxXml ls dir = Returns this"
  shows "links this = ls" and "output_dir this = dir"
    and "joints this = sort_key joint_name (all_joints ls)" and "ls \<noteq> []"
    and "mset (joints this) = mset (all_joints ls)" and "set (joints this) = set (all_joints ls)"
  using assms by (auto simp: UrdfToSimoxXml_def all_joints_def split: if_splits)

lemma write_xml_total:
  assumes c: "UrdfToSimoxXml ls dir = Returns this"
    and t: "kinematic_tree ls rt" and s: "supported e dir ls"
    and d: "count_list fn CHR ''.'' = 1" and f: "length ls < f"
  shows "\<exists>w'. write_xml f e this out fn w = (Returns (), w')"
proof -
  from constructed [OF c] obtain first others where l: "links this = first # others" "ls = first # others"
    by (cases ls) auto
  then have m: "first \<in> set ls" by simp
  from route_link(2) [OF t m] have "0 < length (route ls rt (link_name first))"
    by (cases "route ls rt (link_name first)") simp_all
  with f have "Suc (length ls) < f + length (route ls rt (link_name first))" by linarith
  from emit_returns(1) [OF t s m this, of "scaffold fn (link_name first)" w] obtain h6 w1 where
    a: "add_link_node f e dir ls (scaffold fn (link_name first)) first w = (Returns h6, w1)"
    by blast
  from supported_names [OF s] constructed(1,6) [OF c] have
    "\<forall>l \<in> set (links this). link_name l \<noteq> []" "\<forall>j \<in> set (joints this). joint_name j \<noteq> []"
    by simp_all
  from add_endeffector_node_total [OF this] obtain h7 where
    b: "add_endeffector_node e this h6 (hand_upper fn) (hand_lower fn @ ''_hand_base'')
              (hand_lower fn @ ''_hand_tcp'') (hand_lower fn @ ''_hand_gcp'') (link_name first)
            = Returns h7"
    by blast
  from d have "length (iter_split fn CHR ''.'') = 2" by (simp add: length_iter_split)
  with a b l constructed(1,2) [OF c] show ?thesis
    by (simp add: write_xml_unfold [OF l(1)] and_then_def)
qed

lemma written_document:
  assumes "write_xml f e this out fn w = (Returns u, w')"
  shows "\<exists>first others robot base tcp gcp nodes ef rs m pre st.
           links this = first # others \<and> count_list fn CHR ''.'' = 1 \<and>
           written w' = written w @ [(out @ ''/'' @ fn, last_document w')] \<and>
           subnodes ''Robot'' (last_document w') = [robot] \<and>
           attr robot ''Type'' = Some (hand_upper fn) \<and>
           attr robot ''RootNode'' = Some (hand_lower fn @ ''_hand_base'') \<and>
           robot_nodes (last_document w') = [base, tcp, gcp] @ nodes \<and>
           list_all2 (emitted e (output_dir this) (links this)) (visit f (links this) first) nodes \<and>
           attr base ''name'' = Some (hand_lower fn @ ''_hand_base'') \<and>
           child_refs base = [Some (hand_lower fn @ ''_hand_tcp''), Some (hand_lower fn @ ''_hand_gcp''),
                              Some (link_name first)] \<and>
           \<not> is_link_node base \<and> \<not> is_joint_node base \<and>
           attr tcp ''name'' = Some (hand_lower fn @ ''_hand_tcp'') \<and> child_refs tcp = [] \<and>
           \<not> is_link_node tcp \<and> \<not> is_joint_node tcp \<and>
           attr gcp ''name'' = Some (hand_lower fn @ ''_hand_gcp'') \<and> child_refs gcp = [] \<and>
           \<not> is_link_node gcp \<and> \<not> is_joint_node gcp \<and>
           endeffectors (last_document w') = [ef] \<and>
           get_actors e this = Returns m \<and>
           attr ef ''base'' = Some (hand_lower fn @ ''_hand_base'') \<and>
           attr ef ''tcp'' = Some (hand_lower fn @ ''_hand_tcp'') \<and>
           attr ef ''gcp'' = Some (hand_lower fn @ ''_hand_gcp'') \<and>
           subnodes ''Preshape'' ef = [pre] \<and>
           member_refs pre = map (\<lambda>j. Some (joint_name j)) (joints this) \<and>
           subnodes ''Static'' ef = [st] \<and> member_refs st = [Some (link_name first)] \<and>
           list_all2 (actor_of this) m (subnodes ''Actor'' ef) \<and>
           node_sets (last_document w') = [rs] \<and>
           member_refs rs = map (\<lambda>j. Some (joint_name j)) (joints this)"
proof -
  from write_xml_Returns [OF assms] obtain first others nodes ef where
    l: "links this = first # others" and c: "count_list fn CHR ''.'' = 1"
    and v: "list_all2 (emitted e (output_dir this) (links this)) (visit f (links this) first) nodes"
    and a: "add_endeffector_node e this (appended (scaffold fn (link_name first)) nodes) (hand_upper fn)
               (hand_lower fn @ ''_hand_base'') (hand_lower fn @ ''_hand_tcp'')
               (hand_lower fn @ ''_hand_gcp'') (link_name first)
             = Returns (add_child (appended (scaffold fn (link_name first)) nodes) ''Endeffector'' ef)"
    and w: "written w' = written w @
             [(out @ ''/'' @ fn,
               add_child empty_ptree ''Robot''
                 (add_hand_joints_node this
                    (add_child (appended (scaffold fn (link_name first)) nodes) ''Endeffector'' ef)
                    (hand_upper fn)))]"
    by blast
  let ?s = "scaffold fn (link_name first)"
  let ?h7 = "add_child (appended ?s nodes) ''Endeffector'' ef"
  let ?rs = "hand_joints_loop
               (put (put empty_ptree ''<xmlcomment>''
                       ''This node is for Simox (e.g., GraspPlanner in Simox)!'')
                  ''<xmlattr>.name'' (hand_upper fn @ '' Joints''))
               (joints this)"
  let ?robot = "add_hand_joints_node this ?h7 (hand_upper fn)"
  have robot: "?robot = add_child ?h7 ''RobotNodeSet'' ?rs"
    by (simp add: add_hand_joints_node_def Let_def)
  from w have d: "last_document w' = add_child empty_ptree ''Robot'' ?robot"
    by (simp add: last_document_def)
  from scaffold_nodes [of fn "link_name first"] obtain base tcp gcp where
    s: "subnodes ''RobotNode'' ?s = [base, tcp, gcp]"
      "attr base ''name'' = Some (hand_lower fn @ ''_hand_base'')"
      "child_refs base = [Some (hand_lower fn @ ''_hand_tcp''), Some (hand_lower fn @ ''_hand_gcp''),
                              Some (link_name first)]"
      "\<not> is_link_node base" "\<not> is_joint_node base"
      "attr tcp ''name'' = Some (hand_lower fn @ ''_hand_tcp'')" "child_refs tcp = []"
      "\<not> is_link_node tcp" "\<not> is_joint_node tcp"
      "attr gcp ''name'' = Some (hand_lower fn @ ''_hand_gcp'')" "child_refs gcp = []"
      "\<not> is_link_node gcp" "\<not> is_joint_node gcp"
    by blast
  from add_endeffector_node_Returns [OF a] obtain ef' m pre st where
    e: "?h7 = add_child (appended ?s nodes) ''Endeffector'' ef'"
      "get_actors e this = Returns m"
      "attr ef' ''base'' = Some (hand_lower fn @ ''_hand_base'')"
      "attr ef' ''tcp'' = Some (hand_lower fn @ ''_hand_tcp'')"
      "attr ef' ''gcp'' = Some (hand_lower fn @ ''_hand_gcp'')"
      "subnodes ''Preshape'' ef' = [pre]"
      "member_refs pre = map (\<lambda>j. Some (joint_name j)) (joints this)"
      "subnodes ''Static'' ef' = [st]" "member_refs st = [Some (link_name first)]"
      "list_all2 (actor_of this) m (subnodes ''Actor'' ef')"
    by blast
  from e(1) have ef: "ef' = ef" by (simp add: add_child_def)
  have "member_refs (put (put empty_ptree ''<xmlcomment>''
                       ''This node is for Simox (e.g., GraspPlanner in Simox)!'')
                  ''<xmlattr>.name'' (hand_upper fn @ '' Joints'')) = []"
    by (simp add: member_refs_def subnodes_put_plain)
  then have rs: "member_refs ?rs = map (\<lambda>j. Some (joint_name j)) (joints this)" by simp
  have r1: "subnodes ''Robot'' (last_document w') = [?robot]" by (simp add: d)
  have r2: "attr ?robot ''Type'' = Some (hand_upper fn)"
    "attr ?robot ''RootNode'' = Some (hand_lower fn @ ''_hand_base'')"
    by (simp_all add: robot scaffold_attrs)
  have r3: "robot_nodes (last_document w') = [base, tcp, gcp] @ nodes"
    by (simp add: robot_nodes_def d robot s(1))
  have r4: "endeffectors (last_document w') = [ef]"
    by (simp add: endeffectors_def d robot scaffold_attrs)
  have r5: "node_sets (last_document w') = [?rs]"
    by (simp add: node_sets_def d robot scaffold_attrs)
  from w d have r6: "written w' = written w @ [(out @ ''/'' @ fn, last_document w')]" by simp
  from l c v s e(2-) rs r1 r2 r3 r4 r5 r6 show ?thesis
    unfolding ef by blast
qed

subsection \<open>The number of nodes\<close>

lemma matches_kinds:
  "list_all2 matches items nodes \<Longrightarrow>
     length (filter is_link_node nodes) = length (link_items items) \<and>
     length (filter is_joint_node nodes) = length (joint_items items) \<and>
     map (\<lambda>n. attr n ''name'') nodes = map (\<lambda>i. Some (item_name i)) items \<and>
     filter (\<lambda>n. \<not> is_link_node n \<and> \<not> is_joint_node n) nodes = []"
proof (induction rule: list_all2_induct)
  case Nil
  show ?case by simp
next
  case (Cons i items n nodes)
  then show ?case by (cases i) auto
qed

lemma emitted_kinds:
  assumes "list_all2 (emitted e dir ls) items nodes"
  shows "length (filter is_link_node nodes) = length (link_items items)"
    and "length (filter is_joint_node nodes) = length (joint_items items)"
    and "map (\<lambda>n. attr n ''name'') nodes = map (\<lambda>i. Some (item_name i)) items"
    and "filter (\<lambda>n. \<not> is_link_node n \<and> \<not> is_joint_node n) nodes = []"
proof -
  from assms have "list_all2 matches items nodes"
    by (rule list_all2_mono) (rule emitted_matches)
  from matches_kinds [OF this] show "length (filter is_link_node nodes) = length (link_items items)"
    and "length (filter is_joint_node nodes) = length (joint_items items)"
    and "map (\<lambda>n. attr n ''name'') nodes = map (\<lambda>i. Some (item_name i)) items"
    and "filter (\<lambda>n. \<not> is_link_node n \<and> \<not> is_joint_node n) nodes = []"
    by simp_all
qed

lemma tree_joint_count:
  assumes t: "kinematic_tree ls rt"
  shows "length (all_joints ls) = length ls - 1"
proof -
  let ?cs = "map child_link_name (all_joints ls)"
  from t have d: "distinct ?cs" and sub: "set ?cs \<subseteq> set (map link_name ls) - {link_name rt}"
    and dn: "distinct (map link_name ls)" and rt: "rt \<in> set ls"
    by (simp_all add: kinematic_tree_iff)
  have "set (map link_name ls) - {link_name rt} \<subseteq> set ?cs"
  proof
    fix nm assume nm: "nm \<in> set (map link_name ls) - {link_name rt}"
    then obtain l where l: "l \<in> set ls" "link_name l = nm" by auto
    from rt obtain k where k: "length ls = Suc k" by (cases ls) auto
    from route_link(1) [OF t l(1)] nm l(2) k obtain p where "parent_link ls nm = Some p"
      by (auto split: option.splits)
    then have "p \<in> set ls" "nm \<in> set (map child_link_name (child_joints p))"
      by (auto simp: parent_link_def find_Some_iff)
    then show "nm \<in> set ?cs" by (auto simp: all_joints_def)
  qed
  with sub have "set ?cs = set (map link_name ls) - {link_name rt}" by blast
  then have "card (set ?cs) = card (set (map link_name ls) - {link_name rt})" by simp
  also have "\<dots> = card (set (map link_name ls)) - 1"
    using rt by (simp add: card_Diff_singleton_if)
  finally have "card (set ?cs) = card (set (map link_name ls)) - 1" .
  moreover from d have "card (set ?cs) = length (all_joints ls)"
    by (metis distinct_card length_map)
  moreover from dn have "card (set (map link_name ls)) = length ls"
    by (metis distinct_card length_map)
  ultimately show ?thesis by simp
qed

lemma document_counts:
  assumes r: "write_xml f e this out fn w = (Returns u, w')"
  shows "\<exists>first others nodes.
     links this = first # others \<and>
     list_all2 (emitted e (output_dir this) (links this)) (visit f (links this) first) nodes \<and>
     length (filter is_link_node (robot_nodes (last_document w'))) = length (filter is_link_node nodes) \<and>
     length (filter is_joint_node (robot_nodes (last_document w'))) = length (filter is_joint_node nodes) \<and>
     map (\<lambda>n. attr n ''name'')
         (filter (\<lambda>n. \<not> is_link_node n \<and> \<not> is_joint_node n) (robot_nodes (last_document w')))
       = [Some (hand_lower fn @ ''_hand_base''), Some (hand_lower fn @ ''_hand_tcp''),
          Some (hand_lower fn @ ''_hand_gcp'')] \<and>
     length (endeffectors (last_document w')) = 1 \<and> length (node_sets (last_document w')) = 1"
proof -
  from written_document [OF r] obtain first others base tcp gcp nodes ef rs where
    l: "links this = first # others"
    and n: "robot_nodes (last_document w') = [base, tcp, gcp] @ nodes"
    and v: "list_all2 (emitted e (output_dir this) (links this)) (visit f (links this) first) nodes"
    and b: "attr base ''name'' = Some (hand_lower fn @ ''_hand_base'')"
      "\<not> is_link_node base" "\<not> is_joint_node base"
      "attr tcp ''name'' = Some (hand_lower fn @ ''_hand_tcp'')"
      "\<not> is_link_node tcp" "\<not> is_joint_node tcp"
      "attr gcp ''name'' = Some (hand_lower fn @ ''_hand_gcp'')"
      "\<not> is_link_node gcp" "\<not> is_joint_node gcp"
    and x: "endeffectors (last_document w') = [ef]" "node_sets (last_document w') = [rs]"
    by blast
  from l v n b x emitted_kinds(4) [OF v] have
    "links this = first # others \<and>
     list_all2 (emitted e (output_dir this) (links this)) (visit f (links this) first) nodes \<and>
     length (filter is_link_node (robot_nodes (last_document w'))) = length (filter is_link_node nodes) \<and>
     length (filter is_joint_node (robot_nodes (last_document w'))) = length (filter is_joint_node nodes) \<and>
     map (\<lambda>n. attr n ''name'')
         (filter (\<lambda>n. \<not> is_link_node n \<and> \<not> is_joint_node n) (robot_nodes (last_document w')))
       = [Some (hand_lower fn @ ''_hand_base''), Some (hand_lower fn @ ''_hand_tcp''),
          Some (hand_lower fn @ ''_hand_gcp'')] \<and>
     length (endeffectors (last_document w')) = 1 \<and> length (node_sets (last_document w')) = 1"
    by simp
  then show ?thesis by (intro exI)
qed

text \<open>
  The walk from the root. When the tree has the first link of the list as its root (and
  the model is in the supported subset: every link with a mesh that converts, every joint
  revolute with limits or fixed, no empty name, a file name with one dot, fuel above the
  number of links), \<^verbatim>\<open>write_xml\<close> returns; with \<open>N\<close> links the model has \<open>N - 1\<close> joints and
  the document has \<open>N\<close> link nodes, \<open>N - 1\<close> joint nodes, the three nodes base, tcp and gcp
  and no other \<^verbatim>\<open>RobotNode\<close>, one \<^verbatim>\<open>Endeffector\<close> and one \<^verbatim>\<open>RobotNodeSet\<close>.
\<close>

lemma root_first_node_counts:
  assumes c: "UrdfToSimoxXml ls dir = Returns this"
    and t: "kinematic_tree ls (hd ls)" and s: "supported e dir ls"
    and d: "count_list fn CHR ''.'' = 1" and f: "length ls < fuel"
  shows "\<exists>w'. write_xml fuel e this out fn w = (Returns (), w') \<and>
           length (joints this) = length ls - 1 \<and>
           length (filter is_link_node (robot_nodes (last_document w'))) = length ls \<and>
           length (filter is_joint_node (robot_nodes (last_document w'))) = length ls - 1 \<and>
           map (\<lambda>n. attr n ''name'')
               (filter (\<lambda>n. \<not> is_link_node n \<and> \<not> is_joint_node n) (robot_nodes (last_document w')))
             = [Some (hand_lower fn @ ''_hand_base''), Some (hand_lower fn @ ''_hand_tcp''),
                Some (hand_lower fn @ ''_hand_gcp'')] \<and>
           length (endeffectors (last_document w')) = 1 \<and>
           length (node_sets (last_document w')) = 1"
proof -
  from write_xml_total [OF c t s d f] obtain w' where
    r: "write_xml fuel e this out fn w = (Returns (), w')"
    by blast
  from document_counts [OF r] constructed(1,2) [OF c] obtain first others nodes where
    l: "ls = first # others"
    and v: "list_all2 (emitted e dir ls) (visit fuel ls first) nodes"
    and k: "length (filter is_link_node (robot_nodes (last_document w'))) = length (filter is_link_node nodes)"
      "length (filter is_joint_node (robot_nodes (last_document w'))) = length (filter is_joint_node nodes)"
    and y: "map (\<lambda>n. attr n ''name'')
               (filter (\<lambda>n. \<not> is_link_node n \<and> \<not> is_joint_node n) (robot_nodes (last_document w')))
             = [Some (hand_lower fn @ ''_hand_base''), Some (hand_lower fn @ ''_hand_tcp''),
                Some (hand_lower fn @ ''_hand_gcp'')]"
      "length (endeffectors (last_document w')) = 1" "length (node_sets (last_document w')) = 1"
    by auto
  from t l have t': "kinematic_tree ls first" by simp
  from visit_covers [OF t' f] have
    "length (link_items (visit fuel ls first)) = length ls"
    "length (joint_items (visit fuel ls first)) = length (all_joints ls)"
    by (metis size_mset)+
  with emitted_kinds(1,2) [OF v] tree_joint_count [OF t'] have
    "length (filter is_link_node nodes) = length ls"
    "length (filter is_joint_node nodes) = length ls - 1"
    by simp_all
  moreover from constructed(5) [OF c] tree_joint_count [OF t'] have "length (joints this) = length ls - 1"
    by (metis size_mset)
  ultimately show ?thesis using r k y by auto
qed

lemma dms_constructed: "UrdfToSimoxXml [base_link, finger_link] ''/tmp/out'' = Returns dms_hand"
  by (simp add: UrdfToSimoxXml_def dms_hand_def base_link_def finger_link_def)

lemma dms_tree: "kinematic_tree [base_link, finger_link] base_link"
  by (simp add: kinematic_tree_def all_joints_def parent_link_def base_link_def finger_link_def
      finger_joint_def)

lemma dms_supported: "supported quiet_env ''/tmp/out'' [base_link, finger_link]"
  by (simp add: supported_def supported_link_def supported_joint_def all_joints_def base_link_def
      finger_link_def finger_joint_def mesh_converts_def convert_mesh_def c_str_def Let_def erase_def
      quiet_env_def)

lemma dms_names:
  "hand_lower ''dms.xml'' = ''dms''" "hand_upper ''dms.xml'' = ''DMS''"
  by (simp_all add: hand_lower_def hand_upper_def to_lower_copy_def to_upper_copy_def)
    code_simp+

lemma dms_node_counts:
  "UrdfToSimoxXml [base_link, finger_link] ''/tmp/out'' = Returns dms_hand \<and>
   kinematic_tree [base_link, finger_link] (hd [base_link, finger_link]) \<and>
   supported quiet_env ''/tmp/out'' [base_link, finger_link] \<and>
   count_list ''dms.xml'' CHR ''.'' = 1 \<and>
   length [base_link, finger_link] < 3 \<and>
   (\<exists>w'. write_xml 3 quiet_env dms_hand ''/tmp/out'' ''dms.xml'' fresh_world = (Returns (), w') \<and>
      length (joints dms_hand) = 1 \<and>
      length (filter is_link_node (robot_nodes (last_document w'))) = 2 \<and>
      length (filter is_joint_node (robot_nodes (last_document w'))) = 1 \<and>
      map (\<lambda>n. attr n ''name'')
          (filter (\<lambda>n. \<not> is_link_node n \<and> \<not> is_joint_node n) (robot_nodes (last_document w')))
        = [Some ''dms_hand_base'', Some ''dms_hand_tcp'', Some ''dms_hand_gcp''] \<and>
      length (endeffectors (last_document w')) = 1 \<and>
      length (node_sets (last_document w')) = 1)"
proof -
  have t: "kinematic_tree [base_link, finger_link] (hd [base_link, finger_link])"
    using dms_tree by simp
  have d: "count_list ''dms.xml'' CHR ''.'' = 1" by simp
  have f: "length [base_link, finger_link] < 3" by simp
  from root_first_node_counts [OF dms_constructed t dms_supported d f,
      of "''/tmp/out''" fresh_world]
  show ?thesis
    using dms_constructed t dms_supported by (simp add: dms_names numeral_2_eq_2)
qed

lemma palm_first_constructed:
  "UrdfToSimoxXml palm_first_links ''/tmp/out'' = Returns palm_first_hand"
  by (simp add: UrdfToSimoxXml_def palm_first_links_def palm_first_hand_def plain_link_def)

lemma palm_first_tree: "kinematic_tree palm_first_links (last palm_first_links)"
  by (simp add: kinematic_tree_def all_joints_def parent_link_def palm_first_links_def
      plain_link_def plain_joint_def)

lemma palm_first_supported: "supported quiet_env ''/tmp/out'' palm_first_links"
  by (simp add: supported_def supported_link_def supported_joint_def all_joints_def
      palm_first_links_def plain_link_def plain_joint_def mesh_converts_def convert_mesh_def c_str_def
      Let_def erase_def quiet_env_def)

lemma palm_first_returns:
  "\<exists>w'. write_xml 3 quiet_env palm_first_hand ''/tmp/out'' ''hand.xml'' fresh_world = (Returns (), w')"
proof -
  have "count_list ''hand.xml'' CHR ''.'' = 1" by simp
  moreover have "length palm_first_links < 3" by (simp add: palm_first_links_def)
  ultimately show ?thesis
    using write_xml_total [OF palm_first_constructed palm_first_tree palm_first_supported] by blast
qed

text \<open>
  C2. \<^verbatim>\<open>write_xml\<close> takes \<^verbatim>\<open>links_[0]\<close> for the base link and starts the walk there, and
  \<^verbatim>\<open>getLinks\<close> lists the links in the order of their names. For a palm with one finger
  and the joint \<open>knuckle\<close> between them, a tree with the root \<open>palm\<close>, the first link is
  \<open>finger\<close>: the walk starts at the finger, which has no joints, and the document has one
  link node and no joint node for two links and one joint.
\<close>

theorem write_xml_first_link_not_root:
  "UrdfToSimoxXml palm_first_links ''/tmp/out'' = Returns palm_first_hand \<and>
   map link_name palm_first_links = [''finger'', ''palm''] \<and>
   kinematic_tree palm_first_links (last palm_first_links) \<and>
   supported quiet_env ''/tmp/out'' palm_first_links \<and>
   length (links palm_first_hand) = 2 \<and> length (joints palm_first_hand) = 1 \<and>
   fst (write_xml 3 quiet_env palm_first_hand ''/tmp/out'' ''hand.xml'' fresh_world) = Returns () \<and>
   length (filter is_link_node (robot_nodes (last_document
      (snd (write_xml 3 quiet_env palm_first_hand ''/tmp/out'' ''hand.xml'' fresh_world))))) = 1 \<and>
   length (filter is_joint_node (robot_nodes (last_document
      (snd (write_xml 3 quiet_env palm_first_hand ''/tmp/out'' ''hand.xml'' fresh_world))))) = 0"
proof -
  from palm_first_returns obtain w' where
    r: "write_xml 3 quiet_env palm_first_hand ''/tmp/out'' ''hand.xml'' fresh_world = (Returns (), w')"
    by blast
  from document_counts [OF r] obtain first others nodes where
    l: "links palm_first_hand = first # others"
    and v: "list_all2 (emitted quiet_env (output_dir palm_first_hand) (links palm_first_hand))
              (visit 3 (links palm_first_hand) first) nodes"
    and k: "length (filter is_link_node (robot_nodes (last_document w'))) = length (filter is_link_node nodes)"
      "length (filter is_joint_node (robot_nodes (last_document w'))) = length (filter is_joint_node nodes)"
    by blast
  from l have first: "first = plain_link ''finger'' []"
    by (simp add: palm_first_hand_def palm_first_links_def)
  have "visit (Suc (Suc (Suc 0))) (links palm_first_hand) (plain_link ''finger'' [])
      = [LinkItem (plain_link ''finger'' [])]"
    by (simp add: visit_Suc plain_link_def)
  then have "visit 3 (links palm_first_hand) first = [LinkItem (plain_link ''finger'' [])]"
    by (simp add: first numeral_3_eq_3)
  with emitted_kinds(1,2) [OF v] k have
    "length (filter is_link_node (robot_nodes (last_document w'))) = 1"
    "length (filter is_joint_node (robot_nodes (last_document w'))) = 0"
    by simp_all
  with r palm_first_constructed palm_first_tree palm_first_supported show ?thesis
    by (simp add: palm_first_hand_def palm_first_links_def plain_link_def)
qed

subsection \<open>The actors of the end effector\<close>

lemma list_all2_right: "list_all2 P xs ys \<Longrightarrow> y \<in> set ys \<Longrightarrow> \<exists>x \<in> set xs. P x y"
  by (induction rule: list_all2_induct) auto

lemma list_all2_left: "list_all2 P xs ys \<Longrightarrow> x \<in> set xs \<Longrightarrow> \<exists>y \<in> set ys. P x y"
  by (induction rule: list_all2_induct) auto

lemma get_actors_keys:
  assumes "get_actors e this = Returns m"
  shows "fst ` set m = (\<lambda>j. char_to_int (char_signed e) (hd (joint_name j))) ` set (joints this)"
    and "\<forall>j \<in> set (joints this). joint_name j \<noteq> []"
proof -
  from assms show n: "\<forall>j \<in> set (joints this). joint_name j \<noteq> []"
    unfolding get_actors_def by (rule get_actors_loop_nonempty)
  from get_actors_loop_keys [OF n, of "[]" "char_signed e"] assms
  show "fst ` set m = (\<lambda>j. char_to_int (char_signed e) (hd (joint_name j))) ` set (joints this)"
    by (auto simp: get_actors_def)
qed

text \<open>
  C10. In every document that \<^verbatim>\<open>write_xml\<close> writes, the names of the \<^verbatim>\<open>Actor\<close> nodes are
  the first characters of the joint names and nothing else, and a link is a member of
  some actor exactly when its first character is the first character of some joint: a
  link whose first character no joint has is in no group, a link whose first character
  some joint has is in that group.
\<close>

theorem actor_groups_from_joints:
  assumes "write_xml fuel e this out fn w = (Returns u, w')"
  shows "set (map (\<lambda>a. attr a ''name'') (actor_nodes (last_document w')))
           = (\<lambda>j. Some [hd (joint_name j)]) ` set (joints this) \<and>
         (\<forall>l \<in> set (links this).
            (\<exists>a \<in> set (actor_nodes (last_document w')). Some (link_name l) \<in> set (member_refs a))
            \<longleftrightarrow> (\<exists>j \<in> set (joints this). hd (joint_name j) = hd (link_name l)))"
proof -
  from written_document [OF assms] obtain ef m where
    ef: "endeffectors (last_document w') = [ef]"
    and m: "get_actors e this = Returns m"
    and a: "list_all2 (actor_of this) m (subnodes ''Actor'' ef)"
    by blast
  let ?acts = "subnodes ''Actor'' ef"
  let ?g = "char_to_int (char_signed e)"
  from ef have an: "actor_nodes (last_document w') = ?acts" by (simp add: actor_nodes_def)
  note keys = get_actors_keys(1) [OF m]
  have names: "set (map (\<lambda>a. attr a ''name'') ?acts) = (\<lambda>j. Some [hd (joint_name j)]) ` set (joints this)"
  proof (intro equalityI subsetI)
    fix x assume "x \<in> set (map (\<lambda>a. attr a ''name'') ?acts)"
    then obtain act where act: "act \<in> set ?acts" "x = attr act ''name''" by auto
    from list_all2_right [OF a act(1)] obtain kv where kv: "kv \<in> set m" "actor_of this kv act"
      by blast
    from kv(1) keys obtain j where "j \<in> set (joints this)" "fst kv = ?g (hd (joint_name j))"
      by (metis (no_types, lifting) image_iff)
    with kv(2) act(2) show "x \<in> (\<lambda>j. Some [hd (joint_name j)]) ` set (joints this)"
      by (auto simp: actor_of_def int_to_char_char_to_int)
  next
    fix x assume "x \<in> (\<lambda>j. Some [hd (joint_name j)]) ` set (joints this)"
    then obtain j where j: "j \<in> set (joints this)" "x = Some [hd (joint_name j)]" by auto
    with keys obtain kv where kv: "kv \<in> set m" "fst kv = ?g (hd (joint_name j))"
      by (metis (no_types, lifting) image_iff)
    from list_all2_left [OF a kv(1)] obtain act where act: "act \<in> set ?acts" "actor_of this kv act"
      by blast
    from act(2) kv(2) j(2) have "attr act ''name'' = x"
      by (simp add: actor_of_def int_to_char_char_to_int)
    with act(1) show "x \<in> set (map (\<lambda>a. attr a ''name'') ?acts)"
      by force
  qed
  have members: "(\<exists>act \<in> set ?acts. Some (link_name l) \<in> set (member_refs act))
            \<longleftrightarrow> (\<exists>j \<in> set (joints this). hd (joint_name j) = hd (link_name l))"
    if l: "l \<in> set (links this)" for l
  proof
    assume "\<exists>act \<in> set ?acts. Some (link_name l) \<in> set (member_refs act)"
    then obtain act where act: "act \<in> set ?acts" "Some (link_name l) \<in> set (member_refs act)"
      by blast
    from list_all2_right [OF a act(1)] obtain kv where kv: "kv \<in> set m" "actor_of this kv act"
      by blast
    from kv(1) keys obtain j where j: "j \<in> set (joints this)" "fst kv = ?g (hd (joint_name j))"
      by (metis (no_types, lifting) image_iff)
    from kv(2) act(2) have "hd (link_name l) = int_to_char (fst kv)"
      by (auto simp: actor_of_def)
    with j show "\<exists>j \<in> set (joints this). hd (joint_name j) = hd (link_name l)"
      by (auto simp: int_to_char_char_to_int)
  next
    assume "\<exists>j \<in> set (joints this). hd (joint_name j) = hd (link_name l)"
    then obtain j where j: "j \<in> set (joints this)" "hd (joint_name j) = hd (link_name l)" by blast
    with keys obtain kv where kv: "kv \<in> set m" "fst kv = ?g (hd (joint_name j))"
      by (metis (no_types, lifting) image_iff)
    from list_all2_left [OF a kv(1)] obtain act where act: "act \<in> set ?acts" "actor_of this kv act"
      by blast
    from act(2) kv(2) j(2) l have "Some (link_name l) \<in> set (member_refs act)"
      by (auto simp: actor_of_def int_to_char_char_to_int)
    with act(1) show "\<exists>act \<in> set ?acts. Some (link_name l) \<in> set (member_refs act)" by blast
  qed
  from names members show ?thesis unfolding an by blast
qed

lemma dms_returns:
  "\<exists>w'. write_xml 3 quiet_env dms_hand ''/tmp/out'' ''dms.xml'' fresh_world = (Returns (), w')"
proof -
  have "count_list ''dms.xml'' CHR ''.'' = 1" by simp
  moreover have "length [base_link, finger_link] < 3" by simp
  ultimately show ?thesis
    using write_xml_total [OF dms_constructed dms_tree dms_supported] by blast
qed

theorem actor_groups_from_joints_witness:
  "fst (write_xml 3 quiet_env dms_hand ''/tmp/out'' ''dms.xml'' fresh_world) = Returns () \<and>
   map link_name (links dms_hand) = [''base_link'', ''finger_link''] \<and>
   map joint_name (joints dms_hand) = [''finger_joint''] \<and>
   set (map (\<lambda>a. attr a ''name'') (actor_nodes (last_document
      (snd (write_xml 3 quiet_env dms_hand ''/tmp/out'' ''dms.xml'' fresh_world))))) = {Some ''f''} \<and>
   (\<exists>a \<in> set (actor_nodes (last_document
      (snd (write_xml 3 quiet_env dms_hand ''/tmp/out'' ''dms.xml'' fresh_world)))).
      Some ''finger_link'' \<in> set (member_refs a)) \<and>
   \<not> (\<exists>a \<in> set (actor_nodes (last_document
      (snd (write_xml 3 quiet_env dms_hand ''/tmp/out'' ''dms.xml'' fresh_world)))).
      Some ''base_link'' \<in> set (member_refs a))"
proof -
  from dms_returns obtain w' where
    r: "write_xml 3 quiet_env dms_hand ''/tmp/out'' ''dms.xml'' fresh_world = (Returns (), w')"
    by blast
  have l: "links dms_hand = [base_link, finger_link]" and j: "joints dms_hand = [finger_joint]"
    by (simp_all add: dms_hand_def)
  have n: "link_name base_link = ''base_link''" "link_name finger_link = ''finger_link''"
    "joint_name finger_joint = ''finger_joint''"
    by (simp_all add: base_link_def finger_link_def finger_joint_def)
  from actor_groups_from_joints [OF r] show ?thesis
    unfolding r l j by (simp add: n)
qed

subsection \<open>The scenario of two links\<close>

lemma to_string_values:
  "to_string d_0_0 = ''0.000''"
  "to_string d_1_0 = ''1.000''"
  "to_string (Finite True 7070651414971679 (- 52)) = ''-1.570''"
  "to_string (Finite False 7070651414971679 (- 52)) = ''1.570''"
  by (simp_all add: d_0_0_def d_1_0_def thousandths_def round_half_even_def show_nat.simps
      show_frac3_def digit_char_def)

lemma dms_visit:
  "visit (Suc (Suc (Suc n))) [base_link, finger_link] base_link
     = [LinkItem base_link, JointItem finger_joint, LinkItem finger_link]"
  by (simp add: visit_Suc visit_joint_def getLink_def base_link_def finger_link_def finger_joint_def)

lemma dms_joint_node:
  assumes "build_joint_node e ls finger_joint = Returns (jn, c)"
  shows "\<exists>joint ax lim.
           subnodes ''Joint'' jn = [joint] \<and> attr joint ''type'' = Some ''revolute'' \<and>
           subnodes ''Axis'' joint = [ax] \<and>
           attr ax ''x'' = Some ''0.000'' \<and> attr ax ''y'' = Some ''0.000'' \<and>
           attr ax ''z'' = Some ''1.000'' \<and>
           subnodes ''Limits'' joint = [lim] \<and>
           attr lim ''lo'' = Some ''-1.570'' \<and> attr lim ''hi'' = Some ''1.570''"
  using assms
  by (auto simp: build_joint_node_def Let_def set_joint_limits_node_def set_axis_node_def
      finger_joint_def to_string_values simp del: to_string.simps split: option.splits)

text \<open>
  The model of the links \<open>base_link\<close> and \<open>finger_link\<close>, whose root is the first link, with
  one revolute joint about \<open>(0, 0, 1)\<close> with the limits -1.57 and 1.57, written as
  \<open>dms.xml\<close>: whenever \<^verbatim>\<open>write_xml\<close> returns (fuel for the three nodes on the path, any
  collaborators), the \<^verbatim>\<open>Robot\<close> node has \<open>Type = DMS\<close>, the first \<^verbatim>\<open>RobotNode\<close> is the base
  with the three \<^verbatim>\<open>Child\<close> references \<open>dms_hand_tcp\<close>, \<open>dms_hand_gcp\<close> and the name of the
  first link, and exactly one node is a joint node: its axis has \<open>x = 0.000\<close>,
  \<open>y = 0.000\<close>, \<open>z = 1.000\<close> and its limits \<open>lo = -1.570\<close>, \<open>hi = 1.570\<close>.
\<close>

lemma dms_document:
  assumes "write_xml fuel e dms_hand out ''dms.xml'' w = (Returns u, w')" and "2 < fuel"
  shows "\<exists>robot base tcp gcp ln1 jn ln2 joint ax lim.
           subnodes ''Robot'' (last_document w') = [robot] \<and>
           attr robot ''Type'' = Some ''DMS'' \<and>
           robot_nodes (last_document w') = [base, tcp, gcp, ln1, jn, ln2] \<and>
           attr base ''name'' = Some ''dms_hand_base'' \<and>
           child_refs base = [Some ''dms_hand_tcp'', Some ''dms_hand_gcp'', Some ''base_link''] \<and>
           filter is_joint_node (robot_nodes (last_document w')) = [jn] \<and>
           attr jn ''name'' = Some ''finger_joint'' \<and>
           subnodes ''Joint'' jn = [joint] \<and> attr joint ''type'' = Some ''revolute'' \<and>
           subnodes ''Axis'' joint = [ax] \<and>
           attr ax ''x'' = Some ''0.000'' \<and> attr ax ''y'' = Some ''0.000'' \<and>
           attr ax ''z'' = Some ''1.000'' \<and>
           subnodes ''Limits'' joint = [lim] \<and>
           attr lim ''lo'' = Some ''-1.570'' \<and> attr lim ''hi'' = Some ''1.570''"
proof -
  from assms(2) have "fuel = Suc (Suc (Suc (fuel - 3)))" by simp
  then obtain n where fuel: "fuel = Suc (Suc (Suc n))" ..
  have l: "links dms_hand = [base_link, finger_link]" by (simp add: dms_hand_def)
  from written_document [OF assms(1)] obtain first others robot base tcp gcp nodes where
    f: "links dms_hand = first # others"
    and r: "subnodes ''Robot'' (last_document w') = [robot]" "attr robot ''Type'' = Some (hand_upper ''dms.xml'')"
    and n: "robot_nodes (last_document w') = [base, tcp, gcp] @ nodes"
    and v: "list_all2 (emitted e (output_dir dms_hand) (links dms_hand)) (visit fuel (links dms_hand) first) nodes"
    and b: "attr base ''name'' = Some (hand_lower ''dms.xml'' @ ''_hand_base'')"
      "child_refs base = [Some (hand_lower ''dms.xml'' @ ''_hand_tcp''),
                          Some (hand_lower ''dms.xml'' @ ''_hand_gcp''), Some (link_name first)]"
      "\<not> is_joint_node base" "\<not> is_joint_node tcp" "\<not> is_joint_node gcp"
    by (elim exE conjE) (rule that; assumption)
  from f l have first: "first = base_link" by simp
  from v have "list_all2 (emitted e (output_dir dms_hand) [base_link, finger_link])
      [LinkItem base_link, JointItem finger_joint, LinkItem finger_link] nodes"
    by (simp only: l first fuel dms_visit)
  then obtain ln1 jn ln2 where nodes: "nodes = [ln1, jn, ln2]"
    and e1: "emitted e (output_dir dms_hand) [base_link, finger_link] (LinkItem base_link) ln1"
    and e2: "emitted e (output_dir dms_hand) [base_link, finger_link] (JointItem finger_joint) jn"
    and e3: "emitted e (output_dir dms_hand) [base_link, finger_link] (LinkItem finger_link) ln2"
    by (auto simp: list_all2_Cons1 simp del: emitted.simps)
  from emitted_matches [OF e1] emitted_matches [OF e2] emitted_matches [OF e3] have
    k: "\<not> is_joint_node ln1" "is_joint_node jn" "\<not> is_joint_node ln2"
      "attr jn ''name'' = Some ''finger_joint''"
    by (simp_all add: finger_joint_def)
  from e2 obtain c where "build_joint_node e [base_link, finger_link] finger_joint = Returns (jn, c)"
    by auto
  from dms_joint_node [OF this] obtain joint ax lim where
    j: "subnodes ''Joint'' jn = [joint]" "attr joint ''type'' = Some ''revolute''"
      "subnodes ''Axis'' joint = [ax]"
      "attr ax ''x'' = Some ''0.000''" "attr ax ''y'' = Some ''0.000''" "attr ax ''z'' = Some ''1.000''"
      "subnodes ''Limits'' joint = [lim]"
      "attr lim ''lo'' = Some ''-1.570''" "attr lim ''hi'' = Some ''1.570''"
    by (elim exE conjE) (rule that; assumption)
  from n nodes b(3-5) k have fj: "filter is_joint_node (robot_nodes (last_document w')) = [jn]"
    by simp
  from b(1,2) first have b': "attr base ''name'' = Some ''dms_hand_base''"
      "child_refs base = [Some ''dms_hand_tcp'', Some ''dms_hand_gcp'', Some ''base_link'']"
    by (simp_all add: dms_names base_link_def)
  from r(2) have t: "attr robot ''Type'' = Some ''DMS''" by (simp add: dms_names)
  from n nodes have n': "robot_nodes (last_document w') = [base, tcp, gcp, ln1, jn, ln2]" by simp
  from r(1) t n' b' fj k(4) j show ?thesis by (intro exI conjI)
qed

lemma dms_document_run:
  "fst (write_xml 3 quiet_env dms_hand ''/tmp/out'' ''dms.xml'' fresh_world) = Returns () \<and>
   (2::nat) < 3 \<and>
   (\<exists>robot base jn joint ax lim.
      subnodes ''Robot'' (last_document
        (snd (write_xml 3 quiet_env dms_hand ''/tmp/out'' ''dms.xml'' fresh_world))) = [robot] \<and>
      attr robot ''Type'' = Some ''DMS'' \<and>
      hd (robot_nodes (last_document
        (snd (write_xml 3 quiet_env dms_hand ''/tmp/out'' ''dms.xml'' fresh_world)))) = base \<and>
      child_refs base = [Some ''dms_hand_tcp'', Some ''dms_hand_gcp'', Some ''base_link''] \<and>
      filter is_joint_node (robot_nodes (last_document
        (snd (write_xml 3 quiet_env dms_hand ''/tmp/out'' ''dms.xml'' fresh_world)))) = [jn] \<and>
      subnodes ''Joint'' jn = [joint] \<and> subnodes ''Axis'' joint = [ax] \<and>
      attr ax ''x'' = Some ''0.000'' \<and> attr ax ''y'' = Some ''0.000'' \<and>
      attr ax ''z'' = Some ''1.000'' \<and>
      subnodes ''Limits'' joint = [lim] \<and>
      attr lim ''lo'' = Some ''-1.570'' \<and> attr lim ''hi'' = Some ''1.570'')"
proof -
  from dms_returns obtain w' where
    r: "write_xml 3 quiet_env dms_hand ''/tmp/out'' ''dms.xml'' fresh_world = (Returns (), w')"
    by (elim exE conjE) (rule that; assumption)
  have "(2::nat) < 3" by simp
  from dms_document [OF r this] obtain robot base tcp gcp ln1 jn ln2 joint ax lim where
    "subnodes ''Robot'' (last_document w') = [robot]"
    "attr robot ''Type'' = Some ''DMS''"
    "robot_nodes (last_document w') = [base, tcp, gcp, ln1, jn, ln2]"
    "child_refs base = [Some ''dms_hand_tcp'', Some ''dms_hand_gcp'', Some ''base_link'']"
    "filter is_joint_node (robot_nodes (last_document w')) = [jn]"
    "subnodes ''Joint'' jn = [joint]" "subnodes ''Axis'' joint = [ax]"
    "attr ax ''x'' = Some ''0.000''" "attr ax ''y'' = Some ''0.000''" "attr ax ''z'' = Some ''1.000''"
    "subnodes ''Limits'' joint = [lim]"
    "attr lim ''lo'' = Some ''-1.570''" "attr lim ''hi'' = Some ''1.570''"
    by (elim exE conjE) (rule that; assumption)
  then show ?thesis unfolding r by (simp del: One_nat_def)
qed

subsection \<open>References between nodes\<close>

lemma matches_child_refs:
  assumes "list_all2 matches items nodes" and "r \<in> set (concat (map child_refs nodes))"
  shows "(\<exists>l \<in> set (link_items items). \<exists>j \<in> set (child_joints l). r = Some (joint_name j)) \<or>
         (\<exists>j \<in> set (joint_items items). r = Some (child_link_name j))"
  using assms
proof (induction rule: list_all2_induct)
  case Nil
  then show ?case by simp
next
  case (Cons i items n nodes)
  show ?case
  proof (cases "r \<in> set (child_refs n)")
    case True
    with Cons.hyps(1) show ?thesis by (cases i) auto
  next
    case False
    with Cons.prems have "r \<in> set (concat (map child_refs nodes))" by simp
    from Cons.IH [OF this] show ?thesis by (cases i) auto
  qed
qed

lemma item_names_mset:
  "mset (map item_name items)
     = mset (map link_name (link_items items)) + mset (map joint_name (joint_items items))"
proof (induction items)
  case Nil
  show ?case by simp
next
  case (Cons i items)
  then show ?case by (cases i) auto
qed

lemma actor_members_subset:
  assumes "list_all2 (actor_of this) m acts"
  shows "set (concat (map member_refs acts))
     \<subseteq> Some ` (set (map link_name (links this)) \<union> set (map joint_name (joints this)))"
  using assms
proof (induction rule: list_all2_induct)
  case Nil
  show ?case by simp
next
  case (Cons kv m a acts)
  then show ?case by (auto simp: actor_of_def)
qed

lemma count_list_distinct: "distinct xs \<Longrightarrow> x \<in> set xs \<Longrightarrow> count_list xs x = 1"
  by (induction xs) (auto simp: count_list_0_iff)

text \<open>
  References from the root. When the tree has the first link of the list as its root and
  the names of the links, of the joints and of the three synthetic nodes are all
  different, every name that the document refers to is the name of exactly one
  \<^verbatim>\<open>RobotNode\<close>.
\<close>

lemma root_first_references_resolve:
  assumes c: "UrdfToSimoxXml ls dir = Returns this"
    and t: "kinematic_tree ls (hd ls)" and s: "supported e dir ls"
    and d: "count_list fn CHR ''.'' = 1" and f: "length ls < fuel"
    and n: "distinct (synthetic_names fn @ map link_name ls @ map joint_name (all_joints ls))"
  shows "\<exists>w'. write_xml fuel e this out fn w = (Returns (), w') \<and>
           (\<forall>r \<in> set (references (last_document w')).
              count_list (defined_names (last_document w')) r = 1)"
proof -
  from write_xml_total [OF c t s d f] obtain w' where
    r: "write_xml fuel e this out fn w = (Returns (), w')"
    by blast
  let ?doc = "last_document w'"
  let ?hb = "hand_lower fn @ ''_hand_base''"
  let ?ht = "hand_lower fn @ ''_hand_tcp''"
  let ?hg = "hand_lower fn @ ''_hand_gcp''"
  note k = constructed [OF c]
  from written_document [OF r] obtain first others base tcp gcp nodes ef rs m pre st where
    l: "links this = first # others"
    and rn: "robot_nodes ?doc = [base, tcp, gcp] @ nodes"
    and v: "list_all2 (emitted e (output_dir this) (links this)) (visit fuel (links this) first) nodes"
    and b: "attr base ''name'' = Some ?hb" "child_refs base = [Some ?ht, Some ?hg, Some (link_name first)]"
      "attr tcp ''name'' = Some ?ht" "child_refs tcp = []"
      "attr gcp ''name'' = Some ?hg" "child_refs gcp = []"
    and ef: "endeffectors ?doc = [ef]"
      "attr ef ''base'' = Some ?hb" "attr ef ''tcp'' = Some ?ht" "attr ef ''gcp'' = Some ?hg"
      "subnodes ''Preshape'' ef = [pre]" "member_refs pre = map (\<lambda>j. Some (joint_name j)) (joints this)"
      "subnodes ''Static'' ef = [st]" "member_refs st = [Some (link_name first)]"
      "list_all2 (actor_of this) m (subnodes ''Actor'' ef)"
    and rs: "node_sets ?doc = [rs]" "member_refs rs = map (\<lambda>j. Some (joint_name j)) (joints this)"
    by (elim exE conjE) (rule that; assumption)
  let ?items = "visit fuel ls first"
  from l k(1) have first: "first = hd ls" "first \<in> set ls" by auto
  with t have t': "kinematic_tree ls first" by simp
  from v k(1,2) have v': "list_all2 (emitted e dir ls) ?items nodes" by simp
  then have mt: "list_all2 matches ?items nodes"
    by (rule list_all2_mono) (rule emitted_matches)
  note cov = visit_covers [OF t' f]
  let ?names = "map link_name ls @ map joint_name (all_joints ls)"
  have "mset (map item_name ?items) = mset ?names"
  proof -
    from cov(1) have "image_mset link_name (mset (link_items ?items)) = image_mset link_name (mset ls)"
      by simp
    moreover from cov(2) have "image_mset joint_name (mset (joint_items ?items))
        = image_mset joint_name (mset (all_joints ls))"
      by simp
    ultimately show ?thesis
      unfolding item_names_mset by simp
  qed
  then have ms: "mset (synthetic_names fn @ map item_name ?items) = mset (synthetic_names fn @ ?names)"
    by simp
  have dn: "defined_names ?doc = map Some (synthetic_names fn @ map item_name ?items)"
    using emitted_kinds(3) [OF v'] b(1,3,5)
    by (simp add: defined_names_def rn synthetic_names_def comp_def)
  from ms n have "distinct (synthetic_names fn @ map item_name ?items)"
    using mset_eq_imp_distinct_iff by (metis append_assoc)
  then have dd: "distinct (defined_names ?doc)"
    unfolding dn by (subst distinct_map) (intro conjI inj_onI, simp_all)
  from ms have "set (synthetic_names fn @ map item_name ?items) = set (synthetic_names fn @ ?names)"
    by (rule mset_eq_setD)
  then have "set (map Some (synthetic_names fn @ map item_name ?items))
      = Some ` set (synthetic_names fn @ ?names)"
    unfolding set_map by (rule arg_cong)
  then have ds: "set (defined_names ?doc)
      = Some ` (set (synthetic_names fn) \<union> link_name ` set ls \<union> joint_name ` set (all_joints ls))"
    unfolding dn by (simp add: Un_assoc)
  have lk: "Some (link_name x) \<in> set (defined_names ?doc)" if "x \<in> set ls" for x
    using that unfolding ds by blast
  have jt: "Some (joint_name j) \<in> set (defined_names ?doc)" if "j \<in> set (all_joints ls)" for j
    using that unfolding ds by blast
  have sy: "Some ?hb \<in> set (defined_names ?doc)" "Some ?ht \<in> set (defined_names ?doc)"
    "Some ?hg \<in> set (defined_names ?doc)"
    unfolding ds by (simp_all add: synthetic_names_def)
  have ch: "Some (child_link_name j) \<in> set (defined_names ?doc)" if "j \<in> set (all_joints ls)" for j
  proof -
    from t' that have "child_link_name j \<in> link_name ` set ls"
      by (auto simp: kinematic_tree_iff)
    then show ?thesis unfolding ds by blast
  qed
  have nodes_ok: "x \<in> set (defined_names ?doc)" if "x \<in> set (concat (map child_refs nodes))" for x
  proof -
    from matches_child_refs [OF mt that] consider
      (a) l j where "l \<in> set (link_items ?items)" "j \<in> set (child_joints l)" "x = Some (joint_name j)"
      | (b) j where "j \<in> set (joint_items ?items)" "x = Some (child_link_name j)"
      by blast
    then show ?thesis
    proof cases
      case a
      from a(1) cov(1) have "l \<in> set ls" by (metis mset_eq_setD)
      with a(2) have "j \<in> set (all_joints ls)" by (auto simp: all_joints_def)
      with a(3) show ?thesis by (simp add: jt)
    next
      case b
      from b(1) cov(2) have "j \<in> set (all_joints ls)" by (metis mset_eq_setD)
      with b(2) show ?thesis by (simp add: ch)
    qed
  qed
  have actors_ok: "x \<in> set (defined_names ?doc)"
    if "x \<in> set (concat (map member_refs (subnodes ''Actor'' ef)))" for x
  proof -
    from actor_members_subset [OF ef(9)] that k(1,6) have
      "x \<in> Some ` (link_name ` set ls \<union> joint_name ` set (all_joints ls))"
      by auto
    then show ?thesis unfolding ds by blast
  qed
  have joints_ok: "x \<in> set (defined_names ?doc)"
    if "x \<in> set (map (\<lambda>j. Some (joint_name j)) (joints this))" for x
    using that k(6) jt by auto
  have "x \<in> set (defined_names ?doc)" if x: "x \<in> set (references ?doc)" for x
  proof -
    from x have "x \<in> set (child_refs base) \<or> x \<in> set (concat (map child_refs nodes)) \<or>
        x \<in> {Some ?hb, Some ?ht, Some ?hg} \<or>
        x \<in> set (map (\<lambda>j. Some (joint_name j)) (joints this)) \<or>
        x = Some (link_name first) \<or>
        x \<in> set (concat (map member_refs (subnodes ''Actor'' ef)))"
      by (auto simp: references_def endeffector_refs_def rn ef rs b)
    with nodes_ok actors_ok joints_ok sy lk [OF first(2)] b(2) show ?thesis by auto
  qed
  with dd have "\<forall>x \<in> set (references ?doc). count_list (defined_names ?doc) x = 1"
    by (simp add: count_list_distinct)
  with r show ?thesis by blast
qed

lemma dms_references_resolve:
  "UrdfToSimoxXml [base_link, finger_link] ''/tmp/out'' = Returns dms_hand \<and>
   kinematic_tree [base_link, finger_link] (hd [base_link, finger_link]) \<and>
   supported quiet_env ''/tmp/out'' [base_link, finger_link] \<and>
   count_list ''dms.xml'' CHR ''.'' = 1 \<and>
   length [base_link, finger_link] < 3 \<and>
   distinct (synthetic_names ''dms.xml'' @ map link_name [base_link, finger_link]
             @ map joint_name (all_joints [base_link, finger_link])) \<and>
   (\<exists>w'. write_xml 3 quiet_env dms_hand ''/tmp/out'' ''dms.xml'' fresh_world = (Returns (), w') \<and>
      list_all (\<lambda>r. count_list (defined_names (last_document w')) r = 1)
        (references (last_document w')))"
proof -
  have t: "kinematic_tree [base_link, finger_link] (hd [base_link, finger_link])"
    using dms_tree by simp
  have d: "count_list ''dms.xml'' CHR ''.'' = 1" by simp
  have f: "length [base_link, finger_link] < 3" by simp
  have n: "distinct (synthetic_names ''dms.xml'' @ map link_name [base_link, finger_link]
             @ map joint_name (all_joints [base_link, finger_link]))"
    by (simp add: synthetic_names_def dms_names all_joints_def base_link_def finger_link_def
        finger_joint_def)
  from root_first_references_resolve [OF dms_constructed t dms_supported d f n, of "''/tmp/out''" fresh_world]
  show ?thesis
    using dms_constructed t dms_supported n by (simp add: list_all_iff)
qed

lemma namesake_constructed:
  "UrdfToSimoxXml namesake_links ''/tmp/out'' = Returns namesake_hand"
  by (simp add: UrdfToSimoxXml_def namesake_links_def namesake_hand_def plain_link_def)

lemma namesake_tree: "kinematic_tree namesake_links (hd namesake_links)"
  by (simp add: kinematic_tree_def all_joints_def parent_link_def namesake_links_def
      plain_link_def plain_joint_def)

lemma namesake_supported: "supported quiet_env ''/tmp/out'' namesake_links"
  by (simp add: supported_def supported_link_def supported_joint_def all_joints_def
      namesake_links_def plain_link_def plain_joint_def mesh_converts_def convert_mesh_def
      Let_def erase_def quiet_env_def)

lemma namesake_returns:
  "\<exists>w'. write_xml 3 quiet_env namesake_hand ''/tmp/out'' ''hand.xml'' fresh_world = (Returns (), w')"
proof -
  have "count_list ''hand.xml'' CHR ''.'' = 1" by simp
  moreover have "length namesake_links < 3" by (simp add: namesake_links_def)
  ultimately show ?thesis
    using write_xml_total [OF namesake_constructed namesake_tree namesake_supported] by blast
qed

lemma namesake_visit:
  "visit (Suc (Suc (Suc n))) namesake_links (plain_link ''base'' [plain_joint ''finger'' ''finger''])
     = [LinkItem (plain_link ''base'' [plain_joint ''finger'' ''finger'']),
        JointItem (plain_joint ''finger'' ''finger''), LinkItem (plain_link ''finger'' [])]"
  by (simp add: visit_Suc visit_joint_def getLink_def namesake_links_def plain_link_def plain_joint_def)

lemma hand_names:
  "hand_lower ''hand.xml'' = ''hand''"
  by (simp add: hand_lower_def to_lower_copy_def) code_simp

text \<open>
  A link and a joint of one name. The names of the links are unique among the links and
  the names of the joints among the joints; a joint \<open>finger\<close> that leads to the link
  \<open>finger\<close> gives two nodes of that name.
\<close>

lemma link_and_joint_of_one_name:
  "UrdfToSimoxXml namesake_links ''/tmp/out'' = Returns namesake_hand \<and>
   kinematic_tree namesake_links (hd namesake_links) \<and>
   supported quiet_env ''/tmp/out'' namesake_links \<and>
   map link_name namesake_links = [''base'', ''finger''] \<and>
   map joint_name (all_joints namesake_links) = [''finger''] \<and>
   fst (write_xml 3 quiet_env namesake_hand ''/tmp/out'' ''hand.xml'' fresh_world) = Returns () \<and>
   Some ''finger'' \<in> set (references (last_document
      (snd (write_xml 3 quiet_env namesake_hand ''/tmp/out'' ''hand.xml'' fresh_world)))) \<and>
   count_list (defined_names (last_document
      (snd (write_xml 3 quiet_env namesake_hand ''/tmp/out'' ''hand.xml'' fresh_world))))
     (Some ''finger'') = 2"
proof -
  from namesake_returns obtain w' where
    r: "write_xml 3 quiet_env namesake_hand ''/tmp/out'' ''hand.xml'' fresh_world = (Returns (), w')"
    by blast
  let ?doc = "last_document w'"
  from written_document [OF r] obtain first others base tcp gcp nodes ef pre where
    l: "links namesake_hand = first # others"
    and rn: "robot_nodes ?doc = [base, tcp, gcp] @ nodes"
    and v: "list_all2 (emitted quiet_env (output_dir namesake_hand) (links namesake_hand))
              (visit 3 (links namesake_hand) first) nodes"
    and b: "attr base ''name'' = Some (hand_lower ''hand.xml'' @ ''_hand_base'')"
      "attr tcp ''name'' = Some (hand_lower ''hand.xml'' @ ''_hand_tcp'')"
      "attr gcp ''name'' = Some (hand_lower ''hand.xml'' @ ''_hand_gcp'')"
    and ef: "endeffectors ?doc = [ef]" "subnodes ''Preshape'' ef = [pre]"
      "member_refs pre = map (\<lambda>j. Some (joint_name j)) (joints namesake_hand)"
    by (elim exE conjE) (rule that; assumption)
  from l have first: "first = plain_link ''base'' [plain_joint ''finger'' ''finger'']"
    by (simp add: namesake_hand_def namesake_links_def)
  have vs: "visit 3 (links namesake_hand) first
      = [LinkItem (plain_link ''base'' [plain_joint ''finger'' ''finger'']),
         JointItem (plain_joint ''finger'' ''finger''), LinkItem (plain_link ''finger'' [])]"
    using namesake_visit [of 0] by (simp add: first numeral_3_eq_3 namesake_hand_def)
  from emitted_kinds(3) [OF v] have
    "map (\<lambda>n. attr n ''name'') nodes = [Some ''base'', Some ''finger'', Some ''finger'']"
    unfolding vs by (simp add: plain_link_def plain_joint_def)
  then have dn: "defined_names ?doc = [Some ''hand_hand_base'', Some ''hand_hand_tcp'',
      Some ''hand_hand_gcp'', Some ''base'', Some ''finger'', Some ''finger'']"
    by (simp add: defined_names_def rn b hand_names)
  have c: "count_list (defined_names ?doc) (Some ''finger'') = 2"
    unfolding dn by simp
  have "Some ''finger'' \<in> set (member_refs pre)"
    by (simp add: ef(3) namesake_hand_def plain_joint_def)
  then have m: "Some ''finger'' \<in> set (references ?doc)"
    by (simp add: references_def endeffector_refs_def ef(1,2))
  have n: "map link_name namesake_links = [''base'', ''finger'']"
    "map joint_name (all_joints namesake_links) = [''finger'']"
    by (simp_all add: namesake_links_def all_joints_def plain_link_def plain_joint_def)
  from r c m n namesake_constructed namesake_tree namesake_supported show ?thesis
    by simp
qed

text \<open>
  C1. For the palm with one finger, whose links \<^verbatim>\<open>getLinks\<close> lists as \<open>finger\<close>, \<open>palm\<close>,
  the walk from \<^verbatim>\<open>links_[0]\<close> defines the node \<open>finger\<close> only, while the members of the
  \<^verbatim>\<open>Preshape\<close>, of the \<^verbatim>\<open>Actor\<close> and of the \<^verbatim>\<open>RobotNodeSet\<close> are taken from \<^verbatim>\<open>joints_\<close>: the
  document refers to \<open>knuckle\<close> and no node has that name.
\<close>

theorem write_xml_dangling_reference:
  "UrdfToSimoxXml palm_first_links ''/tmp/out'' = Returns palm_first_hand \<and>
   map link_name palm_first_links = [''finger'', ''palm''] \<and>
   map joint_name (all_joints palm_first_links) = [''knuckle''] \<and>
   kinematic_tree palm_first_links (last palm_first_links) \<and>
   supported quiet_env ''/tmp/out'' palm_first_links \<and>
   fst (write_xml 3 quiet_env palm_first_hand ''/tmp/out'' ''hand.xml'' fresh_world) = Returns () \<and>
   defined_names (last_document
      (snd (write_xml 3 quiet_env palm_first_hand ''/tmp/out'' ''hand.xml'' fresh_world)))
     = [Some ''hand_hand_base'', Some ''hand_hand_tcp'', Some ''hand_hand_gcp'', Some ''finger''] \<and>
   Some ''knuckle'' \<in> set (references (last_document
      (snd (write_xml 3 quiet_env palm_first_hand ''/tmp/out'' ''hand.xml'' fresh_world)))) \<and>
   count_list (defined_names (last_document
      (snd (write_xml 3 quiet_env palm_first_hand ''/tmp/out'' ''hand.xml'' fresh_world))))
     (Some ''knuckle'') = 0"
proof -
  from palm_first_returns obtain w' where
    r: "write_xml 3 quiet_env palm_first_hand ''/tmp/out'' ''hand.xml'' fresh_world = (Returns (), w')"
    by blast
  let ?doc = "last_document w'"
  from written_document [OF r] obtain first others base tcp gcp nodes ef pre where
    l: "links palm_first_hand = first # others"
    and rn: "robot_nodes ?doc = [base, tcp, gcp] @ nodes"
    and v: "list_all2 (emitted quiet_env (output_dir palm_first_hand) (links palm_first_hand))
              (visit 3 (links palm_first_hand) first) nodes"
    and b: "attr base ''name'' = Some (hand_lower ''hand.xml'' @ ''_hand_base'')"
      "attr tcp ''name'' = Some (hand_lower ''hand.xml'' @ ''_hand_tcp'')"
      "attr gcp ''name'' = Some (hand_lower ''hand.xml'' @ ''_hand_gcp'')"
    and ef: "endeffectors ?doc = [ef]" "subnodes ''Preshape'' ef = [pre]"
      "member_refs pre = map (\<lambda>j. Some (joint_name j)) (joints palm_first_hand)"
    by (elim exE conjE) (rule that; assumption)
  from l have first: "first = plain_link ''finger'' []"
    by (simp add: palm_first_hand_def palm_first_links_def)
  have "visit (Suc (Suc (Suc 0))) (links palm_first_hand) (plain_link ''finger'' [])
      = [LinkItem (plain_link ''finger'' [])]"
    by (simp add: visit_Suc plain_link_def)
  then have vs: "visit 3 (links palm_first_hand) first = [LinkItem (plain_link ''finger'' [])]"
    by (simp add: first numeral_3_eq_3)
  from emitted_kinds(3) [OF v] have "map (\<lambda>n. attr n ''name'') nodes = [Some ''finger'']"
    unfolding vs by (simp add: plain_link_def)
  then have dn: "defined_names ?doc
      = [Some ''hand_hand_base'', Some ''hand_hand_tcp'', Some ''hand_hand_gcp'', Some ''finger'']"
    by (simp add: defined_names_def rn b hand_names)
  have c: "count_list (defined_names ?doc) (Some ''knuckle'') = 0"
    unfolding dn by simp
  have "Some ''knuckle'' \<in> set (member_refs pre)"
    by (simp add: ef(3) palm_first_hand_def plain_joint_def)
  then have m: "Some ''knuckle'' \<in> set (references ?doc)"
    by (simp add: references_def endeffector_refs_def ef(1,2))
  have n: "map link_name palm_first_links = [''finger'', ''palm'']"
    "map joint_name (all_joints palm_first_links) = [''knuckle'']"
    by (simp_all add: palm_first_links_def all_joints_def plain_link_def plain_joint_def)
  from r have r1: "fst (write_xml 3 quiet_env palm_first_hand ''/tmp/out'' ''hand.xml'' fresh_world) = Returns ()"
    and r2: "snd (write_xml 3 quiet_env palm_first_hand ''/tmp/out'' ''hand.xml'' fresh_world) = w'"
    by simp_all
  show ?thesis
    unfolding r2
    by (intro conjI palm_first_constructed n palm_first_tree palm_first_supported r1 dn m c)
qed

subsection \<open>The scenario with the root second\<close>

lemma palm_knuckle_constructed:
  "UrdfToSimoxXml palm_knuckle_links ''/tmp/out'' = Returns palm_knuckle_hand"
  by (simp add: UrdfToSimoxXml_def palm_knuckle_links_def palm_knuckle_hand_def plain_link_def)

lemma palm_knuckle_tree: "kinematic_tree palm_knuckle_links (last palm_knuckle_links)"
  by (simp add: kinematic_tree_def all_joints_def parent_link_def palm_knuckle_links_def
      plain_link_def knuckle_joint_def)

lemma palm_knuckle_supported: "supported quiet_env ''/tmp/out'' palm_knuckle_links"
  by (simp add: supported_def supported_link_def supported_joint_def all_joints_def
      palm_knuckle_links_def plain_link_def knuckle_joint_def mesh_converts_def convert_mesh_def
      c_str_def Let_def erase_def quiet_env_def)

lemma palm_knuckle_returns:
  "\<exists>w'. write_xml 3 quiet_env palm_knuckle_hand ''/tmp/out'' ''dms.xml'' fresh_world = (Returns (), w')"
proof -
  have "count_list ''dms.xml'' CHR ''.'' = 1" by simp
  moreover have "length palm_knuckle_links < 3" by (simp add: palm_knuckle_links_def)
  ultimately show ?thesis
    using write_xml_total [OF palm_knuckle_constructed palm_knuckle_tree palm_knuckle_supported] by blast
qed

text \<open>
  C3. A model of two links and one revolute joint about \<open>(0, 0, 1)\<close> with the limits -1.57
  and 1.57, written as \<open>dms.xml\<close>, whose root does not come first in the order of the
  names: the links \<open>finger\<close> and \<open>palm\<close>, the joint \<open>knuckle\<close> from the palm to the finger.
  \<^verbatim>\<open>write_xml\<close> returns; the third \<^verbatim>\<open>Child\<close> reference of the base node is \<open>finger\<close>, which
  is \<^verbatim>\<open>links_[0]\<close> and not the root link, and no joint node is written.
\<close>

theorem scenario_root_second:
  "UrdfToSimoxXml palm_knuckle_links ''/tmp/out'' = Returns palm_knuckle_hand \<and>
   map link_name palm_knuckle_links = [''finger'', ''palm''] \<and>
   all_joints palm_knuckle_links = [knuckle_joint] \<and>
   joint_type knuckle_joint = REVOLUTE \<and>
   axis knuckle_joint = Vector3 d_0_0 d_0_0 d_1_0 \<and>
   map_option (\<lambda>l. (to_string (lower l), to_string (upper l))) (limits knuckle_joint)
     = Some (''-1.570'', ''1.570'') \<and>
   kinematic_tree palm_knuckle_links (last palm_knuckle_links) \<and>
   link_name (last palm_knuckle_links) = ''palm'' \<and>
   supported quiet_env ''/tmp/out'' palm_knuckle_links \<and>
   fst (write_xml 3 quiet_env palm_knuckle_hand ''/tmp/out'' ''dms.xml'' fresh_world) = Returns () \<and>
   child_refs (hd (robot_nodes (last_document
      (snd (write_xml 3 quiet_env palm_knuckle_hand ''/tmp/out'' ''dms.xml'' fresh_world)))))
     = [Some ''dms_hand_tcp'', Some ''dms_hand_gcp'', Some ''finger''] \<and>
   filter is_joint_node (robot_nodes (last_document
      (snd (write_xml 3 quiet_env palm_knuckle_hand ''/tmp/out'' ''dms.xml'' fresh_world)))) = []"
proof -
  from palm_knuckle_returns obtain w' where
    r: "write_xml 3 quiet_env palm_knuckle_hand ''/tmp/out'' ''dms.xml'' fresh_world = (Returns (), w')"
    by blast
  let ?doc = "last_document w'"
  from written_document [OF r] obtain first others base tcp gcp nodes where
    l: "links palm_knuckle_hand = first # others"
    and rn: "robot_nodes ?doc = [base, tcp, gcp] @ nodes"
    and v: "list_all2 (emitted quiet_env (output_dir palm_knuckle_hand) (links palm_knuckle_hand))
              (visit 3 (links palm_knuckle_hand) first) nodes"
    and b: "child_refs base = [Some (hand_lower ''dms.xml'' @ ''_hand_tcp''),
                               Some (hand_lower ''dms.xml'' @ ''_hand_gcp''), Some (link_name first)]"
      "\<not> is_joint_node base" "\<not> is_joint_node tcp" "\<not> is_joint_node gcp"
    by (elim exE conjE) (rule that; assumption)
  from l have first: "first = plain_link ''finger'' []"
    by (simp add: palm_knuckle_hand_def palm_knuckle_links_def)
  have "visit (Suc (Suc (Suc 0))) (links palm_knuckle_hand) (plain_link ''finger'' [])
      = [LinkItem (plain_link ''finger'' [])]"
    by (simp add: visit_Suc plain_link_def)
  then have vs: "visit 3 (links palm_knuckle_hand) first = [LinkItem (plain_link ''finger'' [])]"
    by (simp add: first numeral_3_eq_3)
  from v obtain ln where nodes: "nodes = [ln]"
    and e1: "emitted quiet_env (output_dir palm_knuckle_hand) (links palm_knuckle_hand)
               (LinkItem (plain_link ''finger'' [])) ln"
    unfolding vs by (auto simp: list_all2_Cons1 simp del: emitted.simps)
  from emitted_matches [OF e1] have "\<not> is_joint_node ln" by simp
  with rn nodes b(2-4) have fj: "filter is_joint_node (robot_nodes ?doc) = []"
    by simp
  from b(1) rn have cr: "child_refs (hd (robot_nodes ?doc))
      = [Some ''dms_hand_tcp'', Some ''dms_hand_gcp'', Some ''finger'']"
    by (simp add: dms_names first plain_link_def)
  have n: "map link_name palm_knuckle_links = [''finger'', ''palm'']"
    "all_joints palm_knuckle_links = [knuckle_joint]"
    "link_name (last palm_knuckle_links) = ''palm''"
    by (simp_all add: palm_knuckle_links_def all_joints_def plain_link_def)
  have j: "joint_type knuckle_joint = REVOLUTE" "axis knuckle_joint = Vector3 d_0_0 d_0_0 d_1_0"
    by (simp_all add: knuckle_joint_def)
  have lm: "map_option (\<lambda>l. (to_string (lower l), to_string (upper l))) (limits knuckle_joint)
     = Some (''-1.570'', ''1.570'')"
    by (simp add: knuckle_joint_def to_string_values del: to_string.simps)
  from r have r1: "fst (write_xml 3 quiet_env palm_knuckle_hand ''/tmp/out'' ''dms.xml'' fresh_world) = Returns ()"
    and r2: "snd (write_xml 3 quiet_env palm_knuckle_hand ''/tmp/out'' ''dms.xml'' fresh_world) = w'"
    by simp_all
  show ?thesis
    unfolding r2
    by (intro conjI palm_knuckle_constructed n j lm palm_knuckle_tree palm_knuckle_supported r1 cr fj)
qed

subsection \<open>Number formatting\<close>












lemma to_string_example:
  "to_string (Finite True 7070651414971679 (- 52)) = ''-1.570'' \<and>
   decimal_value ''-1.570'' = Some (- (157 / 100))"
  by (simp add: to_string_values decimal_value_def is_digit_def digit_of_def del: to_string.simps)

end
